theory Spec2Isabelle
  imports Main "HOL-Library.FSet" "HOL-Library.AList"
begin

section \<open>Port allocator (utils/network_utils.py)\<close>

text \<open>
  The operating system is a parameter of the model: \<open>os fam p\<close> says whether the test
  socket of address family \<open>fam\<close> can be bound to port \<open>p\<close> and put into listening state.
  The source catches \<open>OSError\<close>/\<open>socket.error\<close> around exactly these two calls and answers
  \<open>False\<close>; \<open>os fam p\<close> being false stands for that exception. For a port outside
  \<open>0..65535\<close> the call of \<open>bind\<close> raises \<open>OverflowError\<close> instead, which is not an \<open>OSError\<close>:
  the source does not catch it, so it leaves \<open>is_port_available\<close> and
  \<open>find_available_port\<close>.
\<close>

datatype family = AF_INET | AF_INET6

datatype py_exception =
    OverflowError    \<comment> \<open>\<open>bind\<close> with a port outside \<open>0..65535\<close>\<close>
  | OSError          \<comment> \<open>a file that cannot be opened\<close>

type_synonym os = "family \<Rightarrow> int \<Rightarrow> bool"

definition port_in_range :: "int \<Rightarrow> bool" where
  "port_in_range port = (0 \<le> port \<and> port \<le> 65535)"

text \<open>
  \<open>is_port_available\<close>: the loop \<open>for family in [AF_INET, AF_INET6]\<close> returns \<open>False\<close> at the
  first family whose bind or listen fails, and \<open>True\<close> after both passed; \<open>Inl\<close> is the
  exception that leaves the function. The second component is the log of the probes that
  were made, in the order they were made.
\<close>

fun probe_families :: "os \<Rightarrow> int \<Rightarrow> family list \<Rightarrow> (py_exception + bool) \<times> (family \<times> int) list" where
  "probe_families os port [] = (Inr True, [])"
| "probe_families os port (fam # fams) =
     (if \<not> port_in_range port then (Inl OverflowError, [(fam, port)])
      else if os fam port
      then (case probe_families os port fams of (r, lg) \<Rightarrow> (r, (fam, port) # lg))
      else (Inr False, [(fam, port)]))"

definition is_port_available :: "os \<Rightarrow> int \<Rightarrow> (py_exception + bool) \<times> (family \<times> int) list" where
  "is_port_available os port = probe_families os port [AF_INET, AF_INET6]"

text \<open>
  \<open>find_available_port\<close>: \<open>for i in range(max_attempts)\<close> with \<open>port = start_port + i\<close>; the
  loop variable \<open>i\<close> is explicit. A budget that is zero or negative makes \<open>range\<close> empty.
  An exception of \<open>is_port_available\<close> ends the loop and leaves the function.
\<close>

function find_loop ::
  "os \<Rightarrow> int \<Rightarrow> int \<Rightarrow> int \<Rightarrow> (py_exception + int option) \<times> (family \<times> int) list" where
  "find_loop os start_port max_attempts i =
     (if i < max_attempts
      then (case is_port_available os (start_port + i) of
              (Inl exc, lg) \<Rightarrow> (Inl exc, lg)
            | (Inr True, lg) \<Rightarrow> (Inr (Some (start_port + i)), lg)
            | (Inr False, lg) \<Rightarrow>
                (case find_loop os start_port max_attempts (i + 1) of
                   (r, lg') \<Rightarrow> (r, lg @ lg')))
      else (Inr None, []))"
  by pat_completeness auto
termination
  by (relation "measure (\<lambda>(os, start_port, max_attempts, i). nat (max_attempts - i))") auto

definition find_available_port ::
  "os \<Rightarrow> int \<Rightarrow> int \<Rightarrow> (py_exception + int option) \<times> (family \<times> int) list" where
  "find_available_port os start_port max_attempts = find_loop os start_port max_attempts 0"

text \<open>The specification's notion: a port is available when both families can bind and listen.\<close>

definition fully_available :: "os \<Rightarrow> int \<Rightarrow> bool" where
  "fully_available os port = (os AF_INET port \<and> os AF_INET6 port)"

subsection \<open>Properties of the allocator\<close>

lemma is_port_available_fst:
  "fst (is_port_available os p) =
     (if port_in_range p then Inr (fully_available os p) else Inl OverflowError)"
  by (simp add: is_port_available_def fully_available_def)

lemma is_port_available_snd:
  "snd (is_port_available os p) =
     (if port_in_range p \<and> os AF_INET p then [(AF_INET, p), (AF_INET6, p)] else [(AF_INET, p)])"
  by (simp add: is_port_available_def)

text \<open>What a run of the loop from index \<open>i\<close> has seen when it ends at port \<open>p\<close>.\<close>

definition passed_over :: "os \<Rightarrow> int \<Rightarrow> int \<Rightarrow> bool" where
  "passed_over os lo p = (\<forall>q. lo \<le> q \<and> q < p \<longrightarrow> port_in_range q \<and> \<not> fully_available os q)"

lemma passed_over_step:
  "port_in_range lo \<Longrightarrow> \<not> fully_available os lo \<Longrightarrow> passed_over os (lo + 1) p \<Longrightarrow> passed_over os lo p"
proof -
  assume a: "port_in_range lo" "\<not> fully_available os lo" "passed_over os (lo + 1) p"
  have "\<And>q. lo \<le> q \<Longrightarrow> q = lo \<or> lo + 1 \<le> q" by arith
  with a show ?thesis unfolding passed_over_def by blast
qed

lemma find_loop_spec:
  "find_loop os s n i = (r, lg) \<Longrightarrow>
     sorted (map snd lg) \<and> (\<forall>q \<in> set (map snd lg). s + i \<le> q) \<and>
     (case r of
        Inr (Some p) \<Rightarrow> s + i \<le> p \<and> p < s + n \<and> port_in_range p \<and> fully_available os p \<and>
                        passed_over os (s + i) p \<and> set (map snd lg) = {s + i .. p}
      | Inr None \<Rightarrow> passed_over os (s + i) (s + n) \<and> set (map snd lg) = {s + i ..< s + n}
      | Inl exc \<Rightarrow> exc = OverflowError \<and>
                  (\<exists>p. s + i \<le> p \<and> p < s + n \<and> \<not> port_in_range p \<and>
                       passed_over os (s + i) p \<and> set (map snd lg) = {s + i .. p}))"
proof (induction os s n i arbitrary: r lg rule: find_loop.induct)
  case (1 os s n i)
  show ?case
  proof (cases "i < n")
    case False
    with "1.prems" show ?thesis
      by (auto simp: find_loop.simps[of os s n i] passed_over_def)
  next
    case True
    obtain b l where ipa: "is_port_available os (s + i) = (b, l)" by force
    hence b: "b = (if port_in_range (s + i) then Inr (fully_available os (s + i)) else Inl OverflowError)"
      and l: "l = (if port_in_range (s + i) \<and> os AF_INET (s + i)
                   then [(AF_INET, s + i), (AF_INET6, s + i)] else [(AF_INET, s + i)])"
      using is_port_available_fst[of os "s + i"] is_port_available_snd[of os "s + i"] by simp_all
    have ports: "map snd l = [s + i, s + i] \<or> map snd l = [s + i]" using l by auto
    have p0: "passed_over os (s + i) (s + i)" by (auto simp: passed_over_def)
    show ?thesis
    proof (cases "port_in_range (s + i)")
      case False
      with b have bb: "b = Inl OverflowError" by simp
      with True ipa "1.prems" have r: "r = Inl OverflowError" and lg: "lg = l"
        by (simp_all add: find_loop.simps[of os s n i])
      from False True p0 ports show ?thesis
        unfolding r lg by (auto intro!: exI[of _ "s + i"])
    next
      case inr: True
      show ?thesis
      proof (cases "fully_available os (s + i)")
        case fa: True
        with inr b have bb: "b = Inr True" by simp
        with True ipa "1.prems" have r: "r = Inr (Some (s + i))" and lg: "lg = l"
          by (simp_all add: find_loop.simps[of os s n i])
        from inr fa True p0 ports show ?thesis unfolding r lg by auto
      next
        case nfa: False
        with inr b have bb: "b = Inr False" by simp
        obtain r' l' where rec: "find_loop os s n (i + 1) = (r', l')" by force
        with bb True ipa "1.prems" have r: "r = r'" and lg: "lg = l @ l'"
          by (simp_all add: find_loop.simps[of os s n i])
        note IH = "1.IH"[OF True ipa[symmetric] bb refl rec]
        have s1: "s + (i + 1) = s + i + 1" by simp
        from IH have srt: "sorted (map snd l')" and lo: "\<forall>q \<in> set (map snd l'). s + i + 1 \<le> q"
          by (simp_all add: s1)
        have head: "set (map snd l) = {s + i}" and sl: "sorted (map snd l)" using ports by auto
        have lo': "\<forall>q \<in> set (map snd l'). s + i \<le> q"
        proof
          fix q assume "q \<in> set (map snd l')"
          with lo have "s + i + 1 \<le> q" by blast
          thus "s + i \<le> q" by simp
        qed
        have "\<forall>x \<in> set (map snd l). \<forall>y \<in> set (map snd l'). x \<le> y"
          unfolding head using lo' by simp
        with sl srt have "sorted (map snd l @ map snd l')"
          by (simp only: sorted_append simp_thms)
        hence sorted_all: "sorted (map snd (l @ l'))" by simp
        have "\<forall>q \<in> set (map snd l) \<union> set (map snd l'). s + i \<le> q"
          unfolding head using lo' by auto
        hence lo_all: "\<forall>q \<in> set (map snd (l @ l')). s + i \<le> q" by simp
        show ?thesis
        proof (cases r')
          case (Inl exc)
          with IH obtain p where p: "exc = OverflowError" "s + i + 1 \<le> p" "p < s + n" "\<not> port_in_range p"
            "passed_over os (s + i + 1) p" "set (map snd l') = {s + i + 1 .. p}"
            by (auto simp: s1)
          from passed_over_step[OF inr nfa p(5)] have po: "passed_over os (s + i) p" .
          have "set (map snd (l @ l')) = {s + i .. p}" using head p(2,6) by auto
          with p po sorted_all lo_all Inl show ?thesis
            unfolding r lg by (auto intro!: exI[of _ p])
        next
          case (Inr ro)
          show ?thesis
          proof (cases ro)
            case None
            with Inr IH have q: "passed_over os (s + i + 1) (s + n)"
              "set (map snd l') = {s + i + 1 ..< s + n}" by (simp_all add: s1)
            from passed_over_step[OF inr nfa q(1)] have po: "passed_over os (s + i) (s + n)" .
            have "set (map snd (l @ l')) = {s + i ..< s + n}" using head q(2) True by auto
            with po sorted_all lo_all Inr None show ?thesis unfolding r lg by simp
          next
            case (Some p)
            with Inr IH have q: "s + i + 1 \<le> p" "p < s + n" "port_in_range p" "fully_available os p"
              "passed_over os (s + i + 1) p" "set (map snd l') = {s + i + 1 .. p}"
              by (simp_all add: s1)
            from passed_over_step[OF inr nfa q(5)] have po: "passed_over os (s + i) p" .
            have "set (map snd (l @ l')) = {s + i .. p}" using head q(1,6) by auto
            with q po sorted_all lo_all Inr Some show ?thesis unfolding r lg by simp
          qed
        qed
      qed
    qed
  qed
qed



definition os_busy :: os where
  "os_busy fam p = False"

lemma port_in_range_numeral [simp]:
  "port_in_range (numeral k) = (numeral k \<le> (65535::int))"
  by (simp add: port_in_range_def)



section \<open>Python string formatting used by the Coordinator\<close>

text \<open>
  The f-strings of the source render integers in decimal and \<open>None\<close> as the text \<open>None\<close>.
  \<open>str_nat\<close> is the decimal rendering of a natural number, \<open>str_int\<close> that of an integer;
  \<open>val_digits\<close> reads a rendering back and serves to show that the rendering is injective.
\<close>

definition digit_char :: "nat \<Rightarrow> char" where
  "digit_char d = ''0123456789'' ! d"

definition digit_val :: "char \<Rightarrow> nat" where
  "digit_val c = of_char c - 48"

fun str_nat :: "nat \<Rightarrow> string" where
  "str_nat n = (if n < 10 then [digit_char n] else str_nat (n div 10) @ [digit_char (n mod 10)])"

declare str_nat.simps [simp del]

definition val_digits :: "string \<Rightarrow> nat" where
  "val_digits s = foldl (\<lambda>a c. 10 * a + digit_val c) 0 s"

lemma digit_val_digit_char: "d < 10 \<Longrightarrow> digit_val (digit_char d) = d"
proof -
  assume "d < 10"
  hence "d = 0 \<or> d = 1 \<or> d = 2 \<or> d = 3 \<or> d = 4 \<or> d = 5 \<or> d = 6 \<or> d = 7 \<or> d = 8 \<or> d = 9"
    by arith
  thus ?thesis
    by (elim disjE) (simp_all add: digit_char_def digit_val_def)
qed

lemma val_digits_str_nat: "val_digits (str_nat n) = n"
proof (induction n rule: str_nat.induct)
  case (1 n)
  show ?case
  proof (cases "n < 10")
    case True
    thus ?thesis by (simp add: str_nat.simps[of n] val_digits_def digit_val_digit_char)
  next
    case False
    with 1 have "val_digits (str_nat (n div 10)) = n div 10" by simp
    with False show ?thesis
      by (simp add: str_nat.simps[of n] val_digits_def digit_val_digit_char)
  qed
qed

lemma str_nat_inj: "str_nat m = str_nat n \<Longrightarrow> m = n"
  by (metis val_digits_str_nat)

definition str_int :: "int \<Rightarrow> string" where
  "str_int i = (if i < 0 then ''-'' @ str_nat (nat (- i)) else str_nat (nat i))"

fun py_str :: "string option \<Rightarrow> string" where
  "py_str None = ''None''"
| "py_str (Some s) = s"

definition suffixed :: "string option \<Rightarrow> nat \<Rightarrow> string option" where
  "suffixed original counter = Some (py_str original @ ''_'' @ str_nat counter)"

lemma suffixed_inj: "suffixed orig j = suffixed orig k \<Longrightarrow> j = k"
  by (simp add: suffixed_def str_nat_inj)

lemma finite_suffix_hits: "finite {k. suffixed orig k |\<in>| names}"
proof -
  have "inj (suffixed orig)" by (rule injI) (rule suffixed_inj)
  hence "finite (suffixed orig -` fset names)" by (intro finite_vimageI) simp_all
  thus ?thesis by (simp add: vimage_def)
qed

function first_free_counter :: "string option fset \<Rightarrow> string option \<Rightarrow> nat \<Rightarrow> nat" where
  "first_free_counter names original counter =
     (if suffixed original counter |\<in>| names
      then first_free_counter names original (counter + 1)
      else counter)"
  by pat_completeness auto
termination
proof (relation "measure (\<lambda>(names, original, counter).
                   card {k. counter \<le> k \<and> suffixed original k |\<in>| names})")
  show "wf (measure (\<lambda>(names, original, counter).
                   card {k. counter \<le> k \<and> suffixed original k |\<in>| names}))" by simp
next
  fix names :: "string option fset" and original :: "string option" and counter :: nat
  assume hit: "suffixed original counter |\<in>| names"
  let ?A = "{k. counter + 1 \<le> k \<and> suffixed original k |\<in>| names}"
  let ?B = "{k. counter \<le> k \<and> suffixed original k |\<in>| names}"
  have fin: "finite ?B" using finite_suffix_hits[of original names] by simp
  have "counter \<in> ?B" "counter \<notin> ?A" using hit by simp_all
  moreover have "?A \<subseteq> ?B" by auto
  ultimately have "?A \<subset> ?B" by blast
  hence "card ?A < card ?B" using fin by (rule psubset_card_mono[rotated])
  thus "((names, original, counter + 1), (names, original, counter))
        \<in> measure (\<lambda>(names, original, counter).
                   card {k. counter \<le> k \<and> suffixed original k |\<in>| names})"
    by simp
qed

declare first_free_counter.simps [simp del]

definition resolve_nickname :: "string option fset \<Rightarrow> string option \<Rightarrow> string option" where
  "resolve_nickname names nickname =
     (if nickname |\<in>| names
      then suffixed nickname (first_free_counter names nickname 2)
      else nickname)"

lemma first_free_counter_spec:
  "counter \<le> first_free_counter names orig counter \<and>
   suffixed orig (first_free_counter names orig counter) |\<notin>| names \<and>
   (\<forall>k. counter \<le> k \<and> k < first_free_counter names orig counter \<longrightarrow> suffixed orig k |\<in>| names)"
proof (induction names orig counter rule: first_free_counter.induct)
  case (1 names original counter)
  show ?case
  proof (cases "suffixed original counter |\<in>| names")
    case False
    thus ?thesis by (auto simp: first_free_counter.simps[of names original counter])
  next
    case True
    have step: "\<And>k. counter \<le> k \<Longrightarrow> k = counter \<or> counter + 1 \<le> k" by arith
    from True 1 step show ?thesis
      by (auto simp: first_free_counter.simps[of names original counter])
  qed
qed

section \<open>Session Coordinator (network/websocket_server.py)\<close>

text \<open>
  A connection is identified by \<open>id(websocket)\<close>, a number; the source's
  \<open>client_id = "client_" + id(websocket)\<close> is a renaming of it, so one number serves as the
  websocket and as the key of the client table. JSON values of the fields that the
  handlers read (\<open>type\<close>, \<open>code\<close>, \<open>nickname\<close>, \<open>message\<close>) are strings; a missing field is
  \<open>None\<close>, as \<open>dict.get\<close> gives. The human-readable texts of the replies (Chinese in the
  source) are named by constructors.
\<close>

type_synonym websocket = nat

datatype role = Sender | Receiver

datatype error_text =
    AuthRequired   \<comment> \<open>"please authenticate first"\<close>
  | BadFormat      \<comment> \<open>"message format error"\<close>
  | NoSrtPort      \<comment> \<open>"cannot allocate an SRT port"\<close>
  | RelayFailed    \<comment> \<open>"cannot start the stream relay"\<close>

datatype outbound =
    AuthSuccess "string option" int string    \<comment> \<open>nickname, srt_port, server_ip\<close>
  | AuthFailed
  | ErrorMsg error_text
  | Join "string option"
  | Leave "string option"
  | Members "(string option \<times> role) list"
  | Chat "string option" string string        \<comment> \<open>nickname, message, timestamp\<close>
  | Heartbeat

datatype action =
    Sent websocket outbound          \<comment> \<open>\<open>websocket.send\<close> returned\<close>
  | SendFailed websocket outbound    \<comment> \<open>\<open>websocket.send\<close> raised; caught and logged\<close>
  | Close websocket                  \<comment> \<open>\<open>websocket.close()\<close>\<close>
  | StartRelay string int string     \<comment> \<open>\<open>start_rtmp_to_srt\<close>: process name, port, bind address\<close>
  | StopRelay string                 \<comment> \<open>\<open>ffmpeg_manager.stop_process\<close>: process name\<close>
  | MemberUpdateCallback "(string option \<times> role) list"
  | MessageCallback "string option" string

datatype frame =
    NotJson                          \<comment> \<open>\<open>json.loads\<close> raises \<open>JSONDecodeError\<close>\<close>
  | NotObject                        \<comment> \<open>valid JSON without \<open>.get\<close>: \<open>AttributeError\<close>, logged\<close>
  | Object "string \<rightharpoonup> string"

record client_info =
  websocket :: websocket
  authenticated :: bool
  nickname :: "string option"
  srt_port :: "int option"

record server =
  verification_code :: string
  clients :: "(nat \<times> client_info) list"      \<comment> \<open>dict in insertion order\<close>
  nicknames :: "string option fset"
  next_srt_port :: int
  bind_ip :: string
  sender_nickname :: "string option"
  relays :: "string fset"                     \<comment> \<open>keys of \<open>ffmpeg_manager.processes\<close>\<close>
  on_message_callback :: bool                 \<comment> \<open>whether the callback is set\<close>
  on_member_update_callback :: bool

text \<open>What the surroundings answer during one handler run.\<close>

record env =
  bind_ok :: os                 \<comment> \<open>outcome of the test bind and listen\<close>
  logger_ok :: "string \<Rightarrow> bool" \<comment> \<open>\<open>get_ffmpeg_logger\<close> returns for this process name\<close>
  launch_ok :: bool             \<comment> \<open>\<open>process_manager.start_process\<close> returned \<open>True\<close>\<close>
  stop_ok :: bool               \<comment> \<open>\<open>process_manager.stop_process\<close> returned \<open>True\<close>\<close>
  send_ok :: "websocket \<Rightarrow> bool"  \<comment> \<open>\<open>websocket.send\<close> does not raise\<close>
  now :: string                 \<comment> \<open>\<open>datetime.now().isoformat()\<close>\<close>

text \<open>Python truthiness of an optional string and of an optional port.\<close>

fun truthy :: "string option \<Rightarrow> bool" where
  "truthy None = False"
| "truthy (Some s) = (s \<noteq> [])"

fun truthy_port :: "int option \<Rightarrow> bool" where
  "truthy_port None = False"
| "truthy_port (Some p) = (p \<noteq> 0)"

definition init_server :: "string option \<Rightarrow> server" where
  "init_server code =
     \<lparr> verification_code = (if truthy code then the code else ''114514''),
       clients = [],
       nicknames = {||},
       next_srt_port = 10000,
       bind_ip = ''0.0.0.0'',
       sender_nickname = None,
       relays = {||},
       on_message_callback = False,
       on_member_update_callback = False \<rparr>"

definition send_message :: "env \<Rightarrow> websocket \<Rightarrow> outbound \<Rightarrow> action list" where
  "send_message e ws m = [if send_ok e ws then Sent ws m else SendFailed ws m]"

definition send_raw_message :: "env \<Rightarrow> websocket \<Rightarrow> outbound \<Rightarrow> action list" where
  "send_raw_message e ws m = [if send_ok e ws then Sent ws m else SendFailed ws m]"

definition send_error :: "env \<Rightarrow> websocket \<Rightarrow> error_text \<Rightarrow> action list" where
  "send_error e ws t = send_message e ws (ErrorMsg t)"

text \<open>
  \<open>_broadcast_message\<close>: one send task per record of the table whose flag is set, in table
  order; each task catches its own exception.
\<close>

definition broadcast_message :: "env \<Rightarrow> server \<Rightarrow> outbound \<Rightarrow> action list" where
  "broadcast_message e s m =
     concat (map (\<lambda>ci. send_raw_message e (websocket ci) m)
                 (filter authenticated (map snd (clients s))))"

definition get_online_members :: "server \<Rightarrow> (string option \<times> role) list" where
  "get_online_members s =
     (if truthy (sender_nickname s) then [(sender_nickname s, Sender)] else []) @
     map (\<lambda>ci. (nickname ci, Receiver))
         (filter (\<lambda>ci. authenticated ci \<and> truthy (nickname ci)) (map snd (clients s)))"

definition send_members_list :: "env \<Rightarrow> server \<Rightarrow> websocket \<Rightarrow> action list" where
  "send_members_list e s ws = send_message e ws (Members (get_online_members s))"

definition notify_member_update :: "env \<Rightarrow> server \<Rightarrow> action list" where
  "notify_member_update e s =
     broadcast_message e s (Members (get_online_members s)) @
     (if on_member_update_callback s then [MemberUpdateCallback (get_online_members s)] else [])"

text \<open>
  \<open>start\<close>, on the path where \<open>websockets.serve\<close> succeeds: the bind address and the host
  nickname are recorded before the listener is created.
\<close>

definition start :: "server \<Rightarrow> env \<Rightarrow> string \<Rightarrow> string \<Rightarrow> server \<times> action list" where
  "start s e host sender =
     (let s' = s\<lparr> bind_ip := host, sender_nickname := Some sender,
                  nicknames := finsert (Some sender) (nicknames s) \<rparr>
      in (s', if on_member_update_callback s' then notify_member_update e s' else []))"

text \<open>
  \<open>_allocate_srt_port\<close>: an exception of \<open>find_available_port\<close> leaves it before the cursor
  is written.
\<close>

definition allocate_srt_port :: "env \<Rightarrow> server \<Rightarrow> server \<times> (py_exception + int option)" where
  "allocate_srt_port e s =
     (case fst (find_available_port (bind_ok e) (next_srt_port s) 100) of
        Inl exc \<Rightarrow> (s, Inl exc)
      | Inr port \<Rightarrow> (if truthy_port port then s\<lparr> next_srt_port := the port + 1 \<rparr> else s, Inr port))"

definition process_name :: "string option \<Rightarrow> int \<Rightarrow> string" where
  "process_name nick port = ''client_'' @ py_str nick @ ''_'' @ str_int port"

text \<open>
  \<open>FFmpegManager.start_rtmp_to_srt\<close> and \<open>FFmpegManager.stop_process\<close>, as far as the
  Coordinator sees them: the name table of the manager and the answer of the process
  supervisor. After the test of the name table, \<open>start_rtmp_to_srt\<close> opens the log file
  of the process (\<open>get_ffmpeg_logger\<close>) outside any \<open>try\<close>; when that fails the exception
  leaves the function. The process supervisor catches its own exceptions.
\<close>

definition start_rtmp_to_srt ::
  "env \<Rightarrow> server \<Rightarrow> int \<Rightarrow> string \<Rightarrow> server \<times> (py_exception + bool)" where
  "start_rtmp_to_srt e s port name =
     (if name |\<in>| relays s then (s, Inr False)
      else if \<not> logger_ok e name then (s, Inl OSError)
      else if launch_ok e then (s\<lparr> relays := finsert name (relays s) \<rparr>, Inr True)
      else (s, Inr False))"

definition ffmpeg_stop_process :: "env \<Rightarrow> server \<Rightarrow> string \<Rightarrow> server \<times> bool" where
  "ffmpeg_stop_process e s name =
     (if name |\<notin>| relays s then (s, False)
      else if stop_ok e then (s\<lparr> relays := relays s |-| {|name|} \<rparr>, True)
      else (s, False))"

text \<open>
  \<open>_handle_auth\<close>. The last component says how the run ended: by a \<open>return\<close>, or by an
  exception that leaves the function (and is caught and logged by the receive loop).
\<close>

datatype completion = Returned | Raised py_exception

definition handle_auth ::
  "env \<Rightarrow> server \<Rightarrow> nat \<Rightarrow> client_info \<Rightarrow> (string \<rightharpoonup> string) \<Rightarrow>
     server \<times> client_info \<times> action list \<times> completion" where
  "handle_auth e s client_id ci data =
     (let code = data ''code''; requested = data ''nickname''; ws = websocket ci in
      if code \<noteq> Some (verification_code s)
      then (s, ci, send_message e ws AuthFailed @ [Close ws], Returned)
      else
        let nick = resolve_nickname (nicknames s) requested in
        case allocate_srt_port e s of (s1, allocated) \<Rightarrow>
          (case allocated of
             Inl exc \<Rightarrow> (s1, ci, [], Raised exc)
           | Inr None \<Rightarrow> (s1, ci, send_error e ws NoSrtPort @ [Close ws], Returned)
           | Inr (Some p) \<Rightarrow>
               (case start_rtmp_to_srt e s1 p (process_name nick p) of (s2, started) \<Rightarrow>
                  (case started of
                     Inl exc \<Rightarrow> (s2, ci, [StartRelay (process_name nick p) p (bind_ip s1)], Raised exc)
                   | Inr False \<Rightarrow>
                       (s2, ci, StartRelay (process_name nick p) p (bind_ip s1) #
                                send_error e ws RelayFailed @ [Close ws], Returned)
                   | Inr True \<Rightarrow>
                       (let ci' = ci\<lparr> authenticated := True, nickname := nick, srt_port := Some p \<rparr>;
                            s3 = s2\<lparr> clients := AList.update client_id ci' (clients s2),
                                      nicknames := finsert nick (nicknames s2) \<rparr>
                        in (s3, ci',
                            StartRelay (process_name nick p) p (bind_ip s1) #
                            send_message e ws (AuthSuccess nick p (bind_ip s3)) @
                            broadcast_message e s3 (Join nick) @
                            send_members_list e s3 ws @
                            (if on_member_update_callback s3 then notify_member_update e s3 else []),
                            Returned))))))"

definition handle_chat ::
  "env \<Rightarrow> server \<Rightarrow> nat \<Rightarrow> (string \<rightharpoonup> string) \<Rightarrow> server \<times> action list" where
  "handle_chat e s client_id data =
     (case map_of (clients s) client_id of
        None \<Rightarrow> (s, [])
      | Some ci \<Rightarrow>
          (let message = (case data ''message'' of None \<Rightarrow> [] | Some m \<Rightarrow> m) in
           (s, broadcast_message e s (Chat (nickname ci) message (now e)) @
               (if on_message_callback s then [MessageCallback (nickname ci) message] else []))))"

definition send_chat_message :: "env \<Rightarrow> server \<Rightarrow> string \<Rightarrow> server \<times> action list" where
  "send_chat_message e s message =
     (if \<not> truthy (sender_nickname s) then (s, [])
      else (s, broadcast_message e s (Chat (sender_nickname s) message (now e)) @
               (if on_message_callback s then [MessageCallback (sender_nickname s) message] else [])))"

definition cleanup_client :: "env \<Rightarrow> server \<Rightarrow> nat \<Rightarrow> server \<times> action list" where
  "cleanup_client e s client_id =
     (case map_of (clients s) client_id of
        None \<Rightarrow> (s, [])
      | Some ci \<Rightarrow>
          (let nick = nickname ci; port = srt_port ci;
               stopped = (if truthy_port port
                          then (fst (ffmpeg_stop_process e s (process_name nick (the port))),
                                [StopRelay (process_name nick (the port))])
                          else (s, []));
               s1 = fst stopped;
               s2 = s1\<lparr> clients := AList.delete client_id (clients s1),
                         nicknames := (if truthy nick then nicknames s1 |-| {|nick|} else nicknames s1) \<rparr>
           in (s2, snd stopped @
                   (if truthy nick then broadcast_message e s2 (Leave nick) else []) @
                   (if on_member_update_callback s2 then notify_member_update e s2 else []))))"

text \<open>
  One turn of the receive loop of \<open>handle_client\<close>. The loop catches every exception of
  a handler and logs it; the state the handler had written by then stays.
\<close>

definition handle_message ::
  "env \<Rightarrow> server \<Rightarrow> nat \<Rightarrow> client_info \<Rightarrow> frame \<Rightarrow> server \<times> client_info \<times> action list" where
  "handle_message e s client_id ci fr =
     (case fr of
        NotJson \<Rightarrow> (s, ci, send_error e (websocket ci) BadFormat)
      | NotObject \<Rightarrow> (s, ci, [])
      | Object data \<Rightarrow>
          (let msg_type = data ''type'' in
           if \<not> authenticated ci
           then (if msg_type = Some ''auth''
                 then (case handle_auth e s client_id ci data of
                         (s', ci', acts, fin) \<Rightarrow> (s', ci', acts))
                 else (s, ci, send_error e (websocket ci) AuthRequired))
           else if msg_type = Some ''chat''
                then (case handle_chat e s client_id data of (s', acts) \<Rightarrow> (s', ci, acts))
           else if msg_type = Some ''heartbeat''
                then (s, ci, send_message e (websocket ci) Heartbeat)
           else (s, ci, [])))"

subsection \<open>The Coordinator with its connections\<close>

text \<open>
  \<open>handle_client\<close> keeps one \<open>client_info\<close> per open connection as a local value; \<open>conns\<close>
  holds these. The handlers mutate the shared tables only between two suspension points,
  so each handler run is one step. An event carries what the surroundings answer during
  the step.
\<close>

record system =
  srv :: server
  conns :: "nat \<rightharpoonup> client_info"

datatype event =
    Connect nat                 \<comment> \<open>a new connection enters \<open>handle_client\<close>\<close>
  | Receive nat frame env       \<comment> \<open>the receive loop yields one message\<close>
  | Disconnect nat env          \<comment> \<open>the loop ends; the \<open>finally\<close> block runs\<close>
  | HostChat string env         \<comment> \<open>\<open>send_chat_message\<close> of the host\<close>

definition new_client :: "nat \<Rightarrow> client_info" where
  "new_client ws = \<lparr> websocket = ws, authenticated = False, nickname = None, srt_port = None \<rparr>"

fun step :: "system \<Rightarrow> event \<Rightarrow> system \<times> action list" where
  "step sys (Connect ws) =
     (if ws \<in> dom (conns sys) then (sys, [])
      else (sys\<lparr> conns := (conns sys)(ws \<mapsto> new_client ws) \<rparr>, []))"
| "step sys (Receive ws fr e) =
     (case conns sys ws of
        None \<Rightarrow> (sys, [])
      | Some ci \<Rightarrow>
          (case handle_message e (srv sys) ws ci fr of
             (s', ci', acts) \<Rightarrow> (sys\<lparr> srv := s', conns := (conns sys)(ws \<mapsto> ci') \<rparr>, acts)))"
| "step sys (Disconnect ws e) =
     (case conns sys ws of
        None \<Rightarrow> (sys, [])
      | Some ci \<Rightarrow>
          (case cleanup_client e (srv sys) ws of
             (s', acts) \<Rightarrow> (sys\<lparr> srv := s', conns := (conns sys)(ws := None) \<rparr>, acts)))"
| "step sys (HostChat message e) =
     (case send_chat_message e (srv sys) message of
        (s', acts) \<Rightarrow> (sys\<lparr> srv := s' \<rparr>, acts))"

text \<open>
  The host application constructs the server, sets both callbacks and starts it
  (main.py); connections are served from then on.
\<close>

definition started :: "string option \<Rightarrow> env \<Rightarrow> string \<Rightarrow> string \<Rightarrow> system" where
  "started code e host sender =
     \<lparr> srv = fst (start ((init_server code)\<lparr> on_message_callback := True,
                                               on_member_update_callback := True \<rparr>) e host sender),
       conns = Map.empty \<rparr>"

fun run :: "system \<Rightarrow> event list \<Rightarrow> system" where
  "run sys [] = sys"
| "run sys (ev # evs) = run (fst (step sys ev)) evs"

inductive reachable :: "system \<Rightarrow> bool" where
  reachable_started: "reachable (started code e host sender)"
| reachable_step: "reachable sys \<Longrightarrow> reachable (fst (step sys ev))"

subsection \<open>An invariant of the reachable states\<close>

lemma resolve_nickname_fresh: "resolve_nickname names n |\<notin>| names"
  using first_free_counter_spec[of 2 names n] by (simp add: resolve_nickname_def)

lemma find_available_port_found:
  "fst (find_available_port os st n) = Inr (Some p) \<Longrightarrow>
     st \<le> p \<and> port_in_range p \<and> os AF_INET p \<and> os AF_INET6 p"
proof -
  assume a: "fst (find_available_port os st n) = Inr (Some p)"
  obtain lg where "find_loop os st n 0 = (Inr (Some p), lg)"
    using a by (cases "find_loop os st n 0") (simp add: find_available_port_def)
  from find_loop_spec[OF this] show ?thesis by (simp add: fully_available_def)
qed

lemma allocate_srt_port_cases:
  assumes "allocate_srt_port e s = (s1, port)" and "0 < next_srt_port s"
  shows "((\<exists>exc. port = Inl exc) \<and> s1 = s) \<or> (port = Inr None \<and> s1 = s) \<or>
         (\<exists>p. port = Inr (Some p) \<and> next_srt_port s \<le> p \<and> s1 = s\<lparr> next_srt_port := p + 1 \<rparr>)"
proof (cases "fst (find_available_port (bind_ok e) (next_srt_port s) 100)")
  case (Inl exc)
  with assms have "port = Inl exc \<and> s1 = s" by (auto simp: allocate_srt_port_def)
  thus ?thesis by blast
next
  case (Inr ro)
  show ?thesis
  proof (cases ro)
    case None
    with Inr assms have "port = Inr None \<and> s1 = s" by (auto simp: allocate_srt_port_def)
    thus ?thesis by blast
  next
    case (Some p)
    from find_available_port_found[OF Inr[unfolded Some]] assms(2)
    have "next_srt_port s \<le> p" "p \<noteq> 0" by simp_all
    with Inr Some assms
    have "port = Inr (Some p) \<and> next_srt_port s \<le> p \<and> s1 = s\<lparr> next_srt_port := p + 1 \<rparr>"
      by (auto simp: allocate_srt_port_def)
    thus ?thesis by blast
  qed
qed

text \<open>The two ways a run of \<open>handle_auth\<close> can end.\<close>

definition auth_rejected :: "server \<Rightarrow> client_info \<Rightarrow> server \<Rightarrow> client_info \<Rightarrow> bool" where
  "auth_rejected s ci s' ci' =
     (ci' = ci \<and> (\<exists>x. next_srt_port s \<le> x \<and> s' = s\<lparr> next_srt_port := x \<rparr>))"

definition auth_accepted ::
  "server \<Rightarrow> nat \<Rightarrow> client_info \<Rightarrow> (string \<rightharpoonup> string) \<Rightarrow> server \<Rightarrow> client_info \<Rightarrow> bool" where
  "auth_accepted s client_id ci data s' ci' =
     (\<exists>p name. next_srt_port s \<le> p \<and>
        ci' = ci\<lparr> authenticated := True,
                   nickname := resolve_nickname (nicknames s) (data ''nickname''),
                   srt_port := Some p \<rparr> \<and>
        s' = s\<lparr> next_srt_port := p + 1,
                 relays := finsert name (relays s),
                 clients := AList.update client_id ci' (clients s),
                 nicknames := finsert (nickname ci') (nicknames s) \<rparr>)"

lemma handle_auth_cases:
  assumes "handle_auth e s client_id ci data = (s', ci', acts, fin)" and "0 < next_srt_port s"
  shows "auth_rejected s ci s' ci' \<or> auth_accepted s client_id ci data s' ci'"
proof (cases "data ''code'' = Some (verification_code s)")
  case False
  with assms have "ci' = ci \<and> s' = s" by (auto simp: handle_auth_def Let_def)
  hence "auth_rejected s ci s' ci'" unfolding auth_rejected_def
    by (intro conjI exI[of _ "next_srt_port s"]) simp_all
  thus ?thesis ..
next
  case True
  obtain s1 port where al: "allocate_srt_port e s = (s1, port)" by force
  have same: "ci' = ci \<and> s' = s \<Longrightarrow> auth_rejected s ci s' ci'"
    unfolding auth_rejected_def by (intro conjI exI[of _ "next_srt_port s"]) simp_all
  from allocate_srt_port_cases[OF al assms(2)] show ?thesis
  proof (elim disjE conjE exE)
    fix exc assume "port = Inl exc" "s1 = s"
    with True al assms have "ci' = ci \<and> s' = s" by (auto simp: handle_auth_def Let_def)
    from same[OF this] show ?thesis ..
  next
    assume "port = Inr None" "s1 = s"
    with True al assms have "ci' = ci \<and> s' = s" by (auto simp: handle_auth_def Let_def)
    from same[OF this] show ?thesis ..
  next
    fix p assume p: "port = Inr (Some p)" "next_srt_port s \<le> p" "s1 = s\<lparr> next_srt_port := p + 1 \<rparr>"
    let ?nick = "resolve_nickname (nicknames s) (data ''nickname'')"
    obtain s2 ok where st: "start_rtmp_to_srt e s1 p (process_name ?nick p) = (s2, ok)" by force
    show ?thesis
    proof (cases "ok = Inr True")
      case False
      with st have "s2 = s1" by (auto simp: start_rtmp_to_srt_def split: if_splits)
      with False st p True al assms have "ci' = ci \<and> s' = s\<lparr> next_srt_port := p + 1 \<rparr>"
        by (cases ok) (auto simp: handle_auth_def Let_def split: bool.splits)
      with p have "auth_rejected s ci s' ci'" unfolding auth_rejected_def
        by (intro conjI exI[of _ "p + 1"]) simp_all
      thus ?thesis ..
    next
      case ok: True
      with st have s2: "s2 = s1\<lparr> relays := finsert (process_name ?nick p) (relays s1) \<rparr>"
        by (auto simp: start_rtmp_to_srt_def split: if_splits)
      from ok st p \<open>data ''code'' = Some (verification_code s)\<close> al assms s2
      have "auth_accepted s client_id ci data s' ci'"
        unfolding auth_accepted_def
        by (intro exI[of _ p] exI[of _ "process_name ?nick p"])
           (auto simp: handle_auth_def Let_def)
      thus ?thesis ..
    qed
  qed
qed

definition coord_inv :: "system \<Rightarrow> bool" where
  "coord_inv sys =
     (distinct (map fst (clients (srv sys))) \<and>
      0 < next_srt_port (srv sys) \<and>
      (\<forall>cid ci. map_of (clients (srv sys)) cid = Some ci \<longrightarrow>
          conns sys cid = Some ci \<and> authenticated ci \<and>
          (\<exists>p. srt_port ci = Some p \<and> 0 < p \<and> p < next_srt_port (srv sys))) \<and>
      (\<forall>cid ci. conns sys cid = Some ci \<longrightarrow>
          websocket ci = cid \<and> (authenticated ci \<longrightarrow> map_of (clients (srv sys)) cid = Some ci)) \<and>
      (\<forall>c1 c2 i1 i2. map_of (clients (srv sys)) c1 = Some i1 \<and>
          map_of (clients (srv sys)) c2 = Some i2 \<and> srt_port i1 = srt_port i2 \<longrightarrow> c1 = c2))"

lemma cleanup_client_fields:
  "next_srt_port (fst (cleanup_client e s cid)) = next_srt_port s \<and>
   clients (fst (cleanup_client e s cid)) = AList.delete cid (clients s)"
proof (cases "map_of (clients s) cid")
  case None
  hence "AList.delete cid (clients s) = clients s"
    by (simp add: map_of_eq_None_iff)
  with None show ?thesis by (simp add: cleanup_client_def)
next
  case (Some ci)
  thus ?thesis
    by (simp add: cleanup_client_def Let_def ffmpeg_stop_process_def)
qed

lemma handle_message_cases:
  assumes "handle_message e s cid ci fr = (s', ci', acts)" and "0 < next_srt_port s"
  shows "(s' = s \<and> ci' = ci) \<or>
         (\<not> authenticated ci \<and>
          (\<exists>data fin. fr = Object data \<and> data ''type'' = Some ''auth'' \<and>
             handle_auth e s cid ci data = (s', ci', acts, fin)))"
proof (cases fr)
  case (Object data)
  show ?thesis
  proof (cases "\<not> authenticated ci \<and> data ''type'' = Some ''auth''")
    case True
    obtain s2 ci2 acts2 fin where h: "handle_auth e s cid ci data = (s2, ci2, acts2, fin)"
      by (cases "handle_auth e s cid ci data") auto
    with True Object assms(1) have "s2 = s'" "ci2 = ci'" "acts2 = acts"
      by (simp_all add: handle_message_def)
    with h True Object show ?thesis by blast
  next
    case False
    with Object assms(1) have "s' = s \<and> ci' = ci"
      by (auto simp: handle_message_def Let_def handle_chat_def split: if_splits option.splits)
    thus ?thesis ..
  qed
qed (use assms(1) in \<open>auto simp: handle_message_def\<close>)

lemma coord_inv_clientsD:
  "coord_inv sys \<Longrightarrow> map_of (clients (srv sys)) cid = Some ci \<Longrightarrow>
     conns sys cid = Some ci \<and> authenticated ci \<and>
     (\<exists>p. srt_port ci = Some p \<and> 0 < p \<and> p < next_srt_port (srv sys))"
  unfolding coord_inv_def by blast

lemma coord_inv_connsD:
  "coord_inv sys \<Longrightarrow> conns sys cid = Some ci \<Longrightarrow>
     websocket ci = cid \<and> (authenticated ci \<longrightarrow> map_of (clients (srv sys)) cid = Some ci)"
  unfolding coord_inv_def by blast

lemma coord_inv_portsD:
  "coord_inv sys \<Longrightarrow> map_of (clients (srv sys)) c1 = Some i1 \<Longrightarrow>
     map_of (clients (srv sys)) c2 = Some i2 \<Longrightarrow> srt_port i1 = srt_port i2 \<Longrightarrow> c1 = c2"
  unfolding coord_inv_def by blast

lemma coord_inv_cursorD: "coord_inv sys \<Longrightarrow> 0 < next_srt_port (srv sys)"
  unfolding coord_inv_def by blast

lemma coord_inv_distinctD: "coord_inv sys \<Longrightarrow> distinct (map fst (clients (srv sys)))"
  unfolding coord_inv_def by blast

lemma coord_invI:
  assumes "distinct (map fst (clients (srv sys)))"
    and "0 < next_srt_port (srv sys)"
    and "\<And>cid ci. map_of (clients (srv sys)) cid = Some ci \<Longrightarrow>
          conns sys cid = Some ci \<and> authenticated ci \<and>
          (\<exists>p. srt_port ci = Some p \<and> 0 < p \<and> p < next_srt_port (srv sys))"
    and "\<And>cid ci. conns sys cid = Some ci \<Longrightarrow>
          websocket ci = cid \<and> (authenticated ci \<longrightarrow> map_of (clients (srv sys)) cid = Some ci)"
    and "\<And>c1 c2 i1 i2. map_of (clients (srv sys)) c1 = Some i1 \<Longrightarrow>
          map_of (clients (srv sys)) c2 = Some i2 \<Longrightarrow> srt_port i1 = srt_port i2 \<Longrightarrow> c1 = c2"
  shows "coord_inv sys"
  unfolding coord_inv_def using assms by blast

lemma coord_inv_started: "coord_inv (started code e host sender)"
  by (rule coord_invI) (simp_all add: started_def start_def init_server_def Let_def)

lemma coord_inv_fresh:
  assumes inv: "coord_inv sys" and c: "conns sys ws = Some ci" and na: "\<not> authenticated ci"
  shows "map_of (clients (srv sys)) ws = None"
proof (rule ccontr)
  assume "map_of (clients (srv sys)) ws \<noteq> None"
  then obtain i where i: "map_of (clients (srv sys)) ws = Some i" by auto
  from coord_inv_clientsD[OF inv i] c na show False by simp
qed

lemma coord_inv_accept:
  assumes inv: "coord_inv sys" and c: "conns sys ws = Some ci" and na: "\<not> authenticated ci"
    and acc: "auth_accepted (srv sys) ws ci data s' ci'"
  shows "coord_inv (sys\<lparr> srv := s', conns := (conns sys)(ws \<mapsto> ci') \<rparr>)"
proof -
  from acc obtain p name where p: "next_srt_port (srv sys) \<le> p"
    and ci': "ci' = ci\<lparr> authenticated := True,
                   nickname := resolve_nickname (nicknames (srv sys)) (data ''nickname''),
                   srt_port := Some p \<rparr>"
    and s': "s' = (srv sys)\<lparr> next_srt_port := p + 1,
                 relays := finsert name (relays (srv sys)),
                 clients := AList.update ws ci' (clients (srv sys)),
                 nicknames := finsert (nickname ci') (nicknames (srv sys)) \<rparr>"
    unfolding auth_accepted_def by blast
  note fresh = coord_inv_fresh[OF inv c na]
  from coord_inv_connsD[OF inv c] have ws: "websocket ci = ws" by simp
  note pos = coord_inv_cursorD[OF inv]
  have cl: "clients s' = AList.update ws ci' (clients (srv sys))" by (simp add: s')
  have nx: "next_srt_port s' = p + 1" by (simp add: s')
  have m: "map_of (clients s') = (map_of (clients (srv sys)))(ws \<mapsto> ci')"
    by (simp add: cl update_conv')
  have port': "srt_port ci' = Some p" and au': "authenticated ci'" and ws': "websocket ci' = ws"
    by (simp_all add: ci' ws)
  have old: "\<And>cid i. map_of (clients (srv sys)) cid = Some i \<Longrightarrow>
       cid \<noteq> ws \<and> conns sys cid = Some i \<and> authenticated i \<and>
       (\<exists>q. srt_port i = Some q \<and> 0 < q \<and> q < next_srt_port (srv sys))"
    using coord_inv_clientsD[OF inv] fresh by fastforce
  show ?thesis
  proof (rule coord_invI)
    show "distinct (map fst (clients (srv (sys\<lparr> srv := s', conns := (conns sys)(ws \<mapsto> ci') \<rparr>))))"
      using coord_inv_distinctD[OF inv] by (simp add: cl distinct_update)
  next
    show "0 < next_srt_port (srv (sys\<lparr> srv := s', conns := (conns sys)(ws \<mapsto> ci') \<rparr>))"
      using p pos by (simp add: nx)
  next
    fix cid i
    assume "map_of (clients (srv (sys\<lparr> srv := s', conns := (conns sys)(ws \<mapsto> ci') \<rparr>))) cid = Some i"
    hence a: "((map_of (clients (srv sys)))(ws \<mapsto> ci')) cid = Some i" by (simp add: m)
    have "((conns sys)(ws \<mapsto> ci')) cid = Some i \<and> authenticated i \<and>
          (\<exists>q. srt_port i = Some q \<and> 0 < q \<and> q < p + 1)"
    proof (cases "cid = ws")
      case True
      with a have "i = ci'" by simp
      with True p pos port' au' show ?thesis by simp
    next
      case False
      with a have "map_of (clients (srv sys)) cid = Some i" by simp
      from old[OF this] False p show ?thesis by auto
    qed
    thus "conns (sys\<lparr> srv := s', conns := (conns sys)(ws \<mapsto> ci') \<rparr>) cid = Some i \<and> authenticated i \<and>
          (\<exists>q. srt_port i = Some q \<and> 0 < q \<and>
               q < next_srt_port (srv (sys\<lparr> srv := s', conns := (conns sys)(ws \<mapsto> ci') \<rparr>)))"
      by (simp add: nx)
  next
    fix cid i
    assume "conns (sys\<lparr> srv := s', conns := (conns sys)(ws \<mapsto> ci') \<rparr>) cid = Some i"
    hence a: "((conns sys)(ws \<mapsto> ci')) cid = Some i" by simp
    have "websocket i = cid \<and> (authenticated i \<longrightarrow> ((map_of (clients (srv sys)))(ws \<mapsto> ci')) cid = Some i)"
    proof (cases "cid = ws")
      case True
      with a have "i = ci'" by simp
      with True ws' show ?thesis by simp
    next
      case False
      with a have "conns sys cid = Some i" by simp
      from coord_inv_connsD[OF inv this] False show ?thesis by simp
    qed
    thus "websocket i = cid \<and> (authenticated i \<longrightarrow>
           map_of (clients (srv (sys\<lparr> srv := s', conns := (conns sys)(ws \<mapsto> ci') \<rparr>))) cid = Some i)"
      by (simp add: m)
  next
    fix c1 c2 i1 i2
    assume "map_of (clients (srv (sys\<lparr> srv := s', conns := (conns sys)(ws \<mapsto> ci') \<rparr>))) c1 = Some i1"
      and "map_of (clients (srv (sys\<lparr> srv := s', conns := (conns sys)(ws \<mapsto> ci') \<rparr>))) c2 = Some i2"
      and e: "srt_port i1 = srt_port i2"
    hence a1: "((map_of (clients (srv sys)))(ws \<mapsto> ci')) c1 = Some i1"
      and a2: "((map_of (clients (srv sys)))(ws \<mapsto> ci')) c2 = Some i2" by (simp_all add: m)
    have new: "\<And>c i. c \<noteq> ws \<Longrightarrow> ((map_of (clients (srv sys)))(ws \<mapsto> ci')) c = Some i \<Longrightarrow> srt_port i \<noteq> Some p"
    proof -
      fix c i assume "c \<noteq> ws" "((map_of (clients (srv sys)))(ws \<mapsto> ci')) c = Some i"
      hence "map_of (clients (srv sys)) c = Some i" by simp
      from old[OF this] p show "srt_port i \<noteq> Some p" by auto
    qed
    show "c1 = c2"
    proof (cases "c1 = ws")
      case True
      with a1 have "i1 = ci'" by simp
      hence "srt_port i1 = Some p" by (simp add: port')
      with e have "srt_port i2 = Some p" by simp
      with new[of c2 i2] a2 have "c2 = ws" by blast
      with True show ?thesis by simp
    next
      case False
      show ?thesis
      proof (cases "c2 = ws")
        case True
        with a2 have "i2 = ci'" by simp
        hence "srt_port i2 = Some p" by (simp add: port')
        with e have "srt_port i1 = Some p" by simp
        with new[of c1 i1] a1 False show ?thesis by blast
      next
        case c2: False
        from False c2 a1 a2 have "map_of (clients (srv sys)) c1 = Some i1"
          "map_of (clients (srv sys)) c2 = Some i2" by simp_all
        from coord_inv_portsD[OF inv this e] show ?thesis .
      qed
    qed
  qed
qed

lemma coord_inv_cursor_up:
  assumes inv: "coord_inv sys" and le: "next_srt_port (srv sys) \<le> x"
  shows "coord_inv (sys\<lparr> srv := (srv sys)\<lparr> next_srt_port := x \<rparr> \<rparr>)"
proof (rule coord_invI)
  fix cid ci
  assume "map_of (clients (srv (sys\<lparr> srv := (srv sys)\<lparr> next_srt_port := x \<rparr> \<rparr>))) cid = Some ci"
  hence "map_of (clients (srv sys)) cid = Some ci" by simp
  from coord_inv_clientsD[OF inv this] le
  show "conns (sys\<lparr> srv := (srv sys)\<lparr> next_srt_port := x \<rparr> \<rparr>) cid = Some ci \<and> authenticated ci \<and>
        (\<exists>p. srt_port ci = Some p \<and> 0 < p \<and>
             p < next_srt_port (srv (sys\<lparr> srv := (srv sys)\<lparr> next_srt_port := x \<rparr> \<rparr>)))"
    by auto
next
  fix cid ci
  assume "conns (sys\<lparr> srv := (srv sys)\<lparr> next_srt_port := x \<rparr> \<rparr>) cid = Some ci"
  hence "conns sys cid = Some ci" by simp
  from coord_inv_connsD[OF inv this]
  show "websocket ci = cid \<and> (authenticated ci \<longrightarrow>
         map_of (clients (srv (sys\<lparr> srv := (srv sys)\<lparr> next_srt_port := x \<rparr> \<rparr>))) cid = Some ci)"
    by simp
next
  fix c1 c2 i1 i2
  assume "map_of (clients (srv (sys\<lparr> srv := (srv sys)\<lparr> next_srt_port := x \<rparr> \<rparr>))) c1 = Some i1"
    "map_of (clients (srv (sys\<lparr> srv := (srv sys)\<lparr> next_srt_port := x \<rparr> \<rparr>))) c2 = Some i2"
    "srt_port i1 = srt_port i2"
  hence "map_of (clients (srv sys)) c1 = Some i1" "map_of (clients (srv sys)) c2 = Some i2"
    "srt_port i1 = srt_port i2" by simp_all
  from coord_inv_portsD[OF inv this] show "c1 = c2" .
qed (use coord_inv_distinctD[OF inv] coord_inv_cursorD[OF inv] le in simp_all)

lemma coord_inv_reject:
  assumes inv: "coord_inv sys" and c: "conns sys ws = Some ci"
    and rej: "auth_rejected (srv sys) ci s' ci'"
  shows "coord_inv (sys\<lparr> srv := s', conns := (conns sys)(ws \<mapsto> ci') \<rparr>)"
proof -
  from rej obtain x where ci': "ci' = ci" and le: "next_srt_port (srv sys) \<le> x"
    and s': "s' = (srv sys)\<lparr> next_srt_port := x \<rparr>"
    unfolding auth_rejected_def by blast
  from c have cc: "(conns sys)(ws \<mapsto> ci) = conns sys" by (rule map_upd_triv)
  from coord_inv_cursor_up[OF inv le] show ?thesis by (simp add: ci' cc s')
qed

lemma coord_inv_cleanup:
  assumes inv: "coord_inv sys"
  shows "coord_inv (sys\<lparr> srv := fst (cleanup_client e (srv sys) ws), conns := (conns sys)(ws := None) \<rparr>)"
    (is "coord_inv ?sys'")
proof -
  have nx: "next_srt_port (fst (cleanup_client e (srv sys) ws)) = next_srt_port (srv sys)"
    and cl: "clients (fst (cleanup_client e (srv sys) ws)) = AList.delete ws (clients (srv sys))"
    using cleanup_client_fields[of e "srv sys" ws] by simp_all
  have m: "map_of (clients (fst (cleanup_client e (srv sys) ws))) = (map_of (clients (srv sys)))(ws := None)"
    by (simp add: cl delete_conv')
  show ?thesis
  proof (rule coord_invI)
    show "distinct (map fst (clients (srv ?sys')))"
      using coord_inv_distinctD[OF inv] by (simp add: cl distinct_delete)
  next
    show "0 < next_srt_port (srv ?sys')" using coord_inv_cursorD[OF inv] by (simp add: nx)
  next
    fix cid ci assume "map_of (clients (srv ?sys')) cid = Some ci"
    hence a: "cid \<noteq> ws" "map_of (clients (srv sys)) cid = Some ci"
      by (simp_all add: m split: if_splits)
    from coord_inv_clientsD[OF inv a(2)] a(1)
    show "conns ?sys' cid = Some ci \<and> authenticated ci \<and>
          (\<exists>p. srt_port ci = Some p \<and> 0 < p \<and> p < next_srt_port (srv ?sys'))"
      by (simp add: nx)
  next
    fix cid ci assume "conns ?sys' cid = Some ci"
    hence a: "cid \<noteq> ws" "conns sys cid = Some ci"
      by (simp_all split: if_splits)
    from coord_inv_connsD[OF inv a(2)] a(1)
    show "websocket ci = cid \<and> (authenticated ci \<longrightarrow> map_of (clients (srv ?sys')) cid = Some ci)"
      by (simp add: m)
  next
    fix c1 c2 i1 i2
    assume "map_of (clients (srv ?sys')) c1 = Some i1" "map_of (clients (srv ?sys')) c2 = Some i2"
      and e: "srt_port i1 = srt_port i2"
    hence "map_of (clients (srv sys)) c1 = Some i1" "map_of (clients (srv sys)) c2 = Some i2"
      by (simp_all add: m split: if_splits)
    from coord_inv_portsD[OF inv this e] show "c1 = c2" .
  qed
qed

lemma coord_inv_step: "coord_inv sys \<Longrightarrow> coord_inv (fst (step sys ev))"
proof (cases ev)
  case (Connect ws)
  assume inv: "coord_inv sys"
  show ?thesis
  proof (cases "ws \<in> dom (conns sys)")
    case True
    with Connect inv show ?thesis by simp
  next
    case False
    hence none: "conns sys ws = None" by auto
    have "coord_inv (sys\<lparr> conns := (conns sys)(ws \<mapsto> new_client ws) \<rparr>)"
    proof (rule coord_invI)
      fix cid ci
      assume "map_of (clients (srv (sys\<lparr> conns := (conns sys)(ws \<mapsto> new_client ws) \<rparr>))) cid = Some ci"
      hence a: "map_of (clients (srv sys)) cid = Some ci" by simp
      from coord_inv_clientsD[OF inv a] none have "cid \<noteq> ws" by auto
      with coord_inv_clientsD[OF inv a]
      show "conns (sys\<lparr> conns := (conns sys)(ws \<mapsto> new_client ws) \<rparr>) cid = Some ci \<and> authenticated ci \<and>
          (\<exists>p. srt_port ci = Some p \<and> 0 < p \<and>
               p < next_srt_port (srv (sys\<lparr> conns := (conns sys)(ws \<mapsto> new_client ws) \<rparr>)))"
        by simp
    next
      fix cid ci
      assume a: "conns (sys\<lparr> conns := (conns sys)(ws \<mapsto> new_client ws) \<rparr>) cid = Some ci"
      show "websocket ci = cid \<and> (authenticated ci \<longrightarrow>
         map_of (clients (srv (sys\<lparr> conns := (conns sys)(ws \<mapsto> new_client ws) \<rparr>))) cid = Some ci)"
      proof (cases "cid = ws")
        case True
        with a have "ci = new_client ws" by simp
        with True show ?thesis by (simp add: new_client_def)
      next
        case False
        with a have "conns sys cid = Some ci" by simp
        from coord_inv_connsD[OF inv this] show ?thesis by simp
      qed
    next
      fix c1 c2 i1 i2
      assume "map_of (clients (srv (sys\<lparr> conns := (conns sys)(ws \<mapsto> new_client ws) \<rparr>))) c1 = Some i1"
        "map_of (clients (srv (sys\<lparr> conns := (conns sys)(ws \<mapsto> new_client ws) \<rparr>))) c2 = Some i2"
        "srt_port i1 = srt_port i2"
      hence "map_of (clients (srv sys)) c1 = Some i1" "map_of (clients (srv sys)) c2 = Some i2"
        "srt_port i1 = srt_port i2" by simp_all
      from coord_inv_portsD[OF inv this] show "c1 = c2" .
    qed (use coord_inv_distinctD[OF inv] coord_inv_cursorD[OF inv] in simp_all)
    with Connect False show ?thesis by simp
  qed
next
  case (Receive ws fr e)
  assume inv: "coord_inv sys"
  show ?thesis
  proof (cases "conns sys ws")
    case None
    with Receive inv show ?thesis by simp
  next
    case (Some ci)
    obtain s' ci' acts where hm: "handle_message e (srv sys) ws ci fr = (s', ci', acts)"
      by (cases "handle_message e (srv sys) ws ci fr") auto
    have st: "fst (step sys ev) = sys\<lparr> srv := s', conns := (conns sys)(ws \<mapsto> ci') \<rparr>"
      using Receive Some hm by simp
    from handle_message_cases[OF hm coord_inv_cursorD[OF inv]]
    have "coord_inv (sys\<lparr> srv := s', conns := (conns sys)(ws \<mapsto> ci') \<rparr>)"
    proof (elim disjE conjE exE)
      assume "s' = srv sys" "ci' = ci"
      moreover from Some have "(conns sys)(ws \<mapsto> ci) = conns sys" by (rule map_upd_triv)
      ultimately show ?thesis using inv by simp
    next
      fix data fin
      assume na: "\<not> authenticated ci" and ha: "handle_auth e (srv sys) ws ci data = (s', ci', acts, fin)"
      from handle_auth_cases[OF ha coord_inv_cursorD[OF inv]] show ?thesis
        using coord_inv_reject[OF inv Some] coord_inv_accept[OF inv Some na] by blast
    qed
    with st show ?thesis by simp
  qed
next
  case (Disconnect ws e)
  assume inv: "coord_inv sys"
  show ?thesis
  proof (cases "conns sys ws")
    case None
    with Disconnect inv show ?thesis by simp
  next
    case (Some ci)
    hence "fst (step sys ev) =
        sys\<lparr> srv := fst (cleanup_client e (srv sys) ws), conns := (conns sys)(ws := None) \<rparr>"
      using Disconnect by (simp add: split_beta)
    with coord_inv_cleanup[OF inv] show ?thesis by simp
  qed
next
  case (HostChat message e)
  assume inv: "coord_inv sys"
  have "fst (step sys ev) = sys" using HostChat by (simp add: send_chat_message_def)
  with inv show ?thesis by simp
qed

lemma reachable_coord_inv: "reachable sys \<Longrightarrow> coord_inv sys"
  by (induction rule: reachable.induct) (simp_all add: coord_inv_started coord_inv_step)

subsection \<open>A concrete session\<close>

text \<open>
  A host named Archer with the default code; every port is free, every launch, stop and
  send succeeds.
\<close>

definition env_ok :: env where
  "env_ok = \<lparr> bind_ok = (\<lambda>fam p. True), logger_ok = (\<lambda>name. True), launch_ok = True, stop_ok = True,
               send_ok = (\<lambda>ws. True), now = ''2024-05-01T20:00:00'' \<rparr>"

definition sys0 :: system where
  "sys0 = started (Some ''114514'') env_ok ''0.0.0.0'' ''Archer''"

definition auth_request :: "string \<Rightarrow> string \<Rightarrow> frame" where
  "auth_request code nick = Object [''type'' \<mapsto> ''auth'', ''code'' \<mapsto> code, ''nickname'' \<mapsto> nick]"

definition chat_request :: "string \<Rightarrow> frame" where
  "chat_request text = Object [''type'' \<mapsto> ''chat'', ''message'' \<mapsto> text]"

definition sys_fresh :: system where
  "sys_fresh = run sys0 [Connect 7]"

definition sys1 :: system where
  "sys1 = run sys0 [Connect 1, Receive 1 (auth_request ''114514'' ''Saber'') env_ok]"

definition sys2 :: system where
  "sys2 = run sys1 [Disconnect 1 env_ok]"

lemma reachable_run: "reachable sys \<Longrightarrow> reachable (run sys evs)"
  by (induction evs arbitrary: sys) (simp_all add: reachable_step)

lemma reachable_sys0_run: "reachable (run sys0 evs)"
  unfolding sys0_def by (rule reachable_run) (rule reachable_started)

lemma sys0_simp:
  "sys0 = \<lparr> srv = \<lparr> verification_code = ''114514'', clients = [], nicknames = {|Some ''Archer''|},
                    next_srt_port = 10000, bind_ip = ''0.0.0.0'', sender_nickname = Some ''Archer'',
                    relays = {||}, on_message_callback = True, on_member_update_callback = True \<rparr>,
             conns = Map.empty \<rparr>"
  by (simp add: sys0_def started_def start_def init_server_def Let_def)


lemma find_first_free:
  "os AF_INET p \<Longrightarrow> os AF_INET6 p \<Longrightarrow> port_in_range p \<Longrightarrow>
     fst (find_available_port os p 100) = Inr (Some p)"
  by (simp add: find_available_port_def find_loop.simps[of os p 100 0] is_port_available_def)

lemma sys1_simp:
  "sys1 =
    \<lparr> srv = \<lparr> verification_code = ''114514'',
              clients = [(1, \<lparr> websocket = 1, authenticated = True, nickname = Some ''Saber'', srt_port = Some 10000 \<rparr>)],
              nicknames = {|Some ''Saber'', Some ''Archer''|},
              next_srt_port = 10001, bind_ip = ''0.0.0.0'', sender_nickname = Some ''Archer'',
              relays = {|''client_Saber_10000''|}, on_message_callback = True, on_member_update_callback = True \<rparr>,
       conns = [1 \<mapsto> \<lparr> websocket = 1, authenticated = True, nickname = Some ''Saber'', srt_port = Some 10000 \<rparr>] \<rparr>"
  by (simp add: sys1_def sys0_simp auth_request_def new_client_def handle_message_def handle_auth_def Let_def
        resolve_nickname_def allocate_srt_port_def find_first_free env_ok_def
        start_rtmp_to_srt_def process_name_def str_int_def str_nat.simps digit_char_def)

lemma reachable_sys_fresh: "reachable sys_fresh"
  unfolding sys_fresh_def by (rule reachable_sys0_run)

lemma sys_fresh_simp: "sys_fresh = sys0\<lparr> conns := [7 \<mapsto> new_client 7] \<rparr>"
  by (simp add: sys_fresh_def sys0_simp)

text \<open>
  Claim C10. If a connection closes before it ever authenticated (its flag is still
  unset), the disconnect cleanup changes nothing: the client table, the nickname set, the
  port cursor and the relay table are the ones before, no relay stop is requested and
  nothing is sent or broadcast (the action list is empty).
\<close>

theorem cleanup_before_authentication_noop:
  assumes "reachable sys" and "conns sys ws = Some ci" and "\<not> authenticated ci"
  shows "cleanup_client e (srv sys) ws = (srv sys, []) \<and>
         srv (fst (step sys (Disconnect ws e))) = srv sys \<and>
         snd (step sys (Disconnect ws e)) = []"
proof -
  from coord_inv_fresh[OF reachable_coord_inv[OF assms(1)] assms(2,3)]
  have "map_of (clients (srv sys)) ws = None" .
  hence c: "cleanup_client e (srv sys) ws = (srv sys, [])" by (simp add: cleanup_client_def)
  with assms(2) show ?thesis by simp
qed

theorem cleanup_before_authentication_noop_witness:
  "reachable sys_fresh \<and>
   conns sys_fresh 7 = Some (new_client 7) \<and>
   \<not> authenticated (new_client 7) \<and>
   cleanup_client env_ok (srv sys_fresh) 7 = (srv sys0, []) \<and>
   snd (step sys_fresh (Disconnect 7 env_ok)) = []"
proof -
  have r: "reachable sys_fresh" by (rule reachable_sys_fresh)
  have c: "conns sys_fresh 7 = Some (new_client 7)" by (simp add: sys_fresh_simp)
  have n: "\<not> authenticated (new_client 7)" by (simp add: new_client_def)
  have s: "srv sys_fresh = srv sys0" by (simp add: sys_fresh_simp)
  from cleanup_before_authentication_noop[OF r c n, of env_ok] r c n s show ?thesis by simp
qed

text \<open>
  Claim C9. A message whose type is not \<open>auth\<close>, received on a connection that is not
  authenticated, is answered with the authentication-required error and dropped: that
  one reply is the only action (so the connection is not closed), and the state of the
  session and of the connection is the one before.
\<close>

theorem message_before_authentication:
  assumes "conns sys ws = Some ci" and "\<not> authenticated ci" and "data ''type'' \<noteq> Some ''auth''"
  shows "handle_message e (srv sys) ws ci (Object data) =
           (srv sys, ci, [if send_ok e (websocket ci)
                          then Sent (websocket ci) (ErrorMsg AuthRequired)
                          else SendFailed (websocket ci) (ErrorMsg AuthRequired)]) \<and>
         step sys (Receive ws (Object data) e) =
           (sys, [if send_ok e (websocket ci)
                  then Sent (websocket ci) (ErrorMsg AuthRequired)
                  else SendFailed (websocket ci) (ErrorMsg AuthRequired)])"
proof -
  have h: "handle_message e (srv sys) ws ci (Object data) =
           (srv sys, ci, [if send_ok e (websocket ci)
                          then Sent (websocket ci) (ErrorMsg AuthRequired)
                          else SendFailed (websocket ci) (ErrorMsg AuthRequired)])"
    using assms(2,3) by (simp add: handle_message_def Let_def send_error_def send_message_def)
  from assms(1) have "(conns sys)(ws \<mapsto> ci) = conns sys" by (rule map_upd_triv)
  with h assms(1) show ?thesis by simp
qed

theorem message_before_authentication_witness:
  "conns sys_fresh 7 = Some (new_client 7) \<and>
   step sys_fresh (Receive 7 (chat_request ''hello'') env_ok) =
     (sys_fresh, [Sent 7 (ErrorMsg AuthRequired)])"
proof -
  have c: "conns sys_fresh 7 = Some (new_client 7)" by (simp add: sys_fresh_simp)
  have n: "\<not> authenticated (new_client 7)" by (simp add: new_client_def)
  have t: "[''type'' \<mapsto> ''chat'', ''message'' \<mapsto> ''hello''] ''type'' \<noteq> Some ''auth''" by simp
  have w: "websocket (new_client 7) = 7" "send_ok env_ok 7 = True"
    by (simp_all add: new_client_def env_ok_def)
  from message_before_authentication[where data = "[''type'' \<mapsto> ''chat'', ''message'' \<mapsto> ''hello'']"
      and e = env_ok, OF c n t, THEN conjunct2]
  have "step sys_fresh (Receive 7 (Object [''type'' \<mapsto> ''chat'', ''message'' \<mapsto> ''hello'']) env_ok) =
     (sys_fresh, [Sent 7 (ErrorMsg AuthRequired)])"
    by (simp only: w if_True)
  with c show ?thesis by (simp only: chat_request_def simp_thms)
qed

subsection \<open>Stream ports\<close>

lemma allocate_srt_port_result:
  assumes "snd (allocate_srt_port e s) = Inr (Some p)"
  shows "next_srt_port s \<le> p \<and> bind_ok e AF_INET p \<and> bind_ok e AF_INET6 p"
proof -
  from assms have a: "fst (find_available_port (bind_ok e) (next_srt_port s) 100) = Inr (Some p)"
    by (auto simp: allocate_srt_port_def split: sum.splits)
  from find_available_port_found[OF a] show ?thesis by simp
qed

lemma step_cursor_mono:
  assumes inv: "coord_inv sys"
  shows "next_srt_port (srv sys) \<le> next_srt_port (srv (fst (step sys ev)))"
proof (cases ev)
  case (Connect ws)
  thus ?thesis by simp
next
  case (Receive ws fr e)
  show ?thesis
  proof (cases "conns sys ws")
    case None
    with Receive show ?thesis by simp
  next
    case (Some ci)
    obtain s' ci' acts where hm: "handle_message e (srv sys) ws ci fr = (s', ci', acts)"
      by (cases "handle_message e (srv sys) ws ci fr") auto
    have st: "srv (fst (step sys ev)) = s'" using Receive Some hm by simp
    from handle_message_cases[OF hm coord_inv_cursorD[OF inv]]
    have "next_srt_port (srv sys) \<le> next_srt_port s'"
    proof (elim disjE conjE exE)
      assume "s' = srv sys" thus ?thesis by simp
    next
      fix data fin assume "handle_auth e (srv sys) ws ci data = (s', ci', acts, fin)"
      from handle_auth_cases[OF this coord_inv_cursorD[OF inv]] show ?thesis
        unfolding auth_rejected_def auth_accepted_def by auto
    qed
    with st show ?thesis by simp
  qed
next
  case (Disconnect ws e)
  thus ?thesis using cleanup_client_fields[of e "srv sys" ws]
    by (cases "conns sys ws") (simp_all add: split_beta)
next
  case (HostChat message e)
  thus ?thesis by (simp add: send_chat_message_def)
qed

text \<open>
  Claim C2, as amended. At every reachable state no two authenticated connections hold
  the same stream port, and every port held lies below the port cursor. The cursor never
  moves back: no event decreases it, a disconnect removes the record and leaves the
  cursor where it is, and every allocation answers a port at or above the cursor that
  was just probed free on both families. So a released port is not handed out again
  during the session.
\<close>

theorem stream_ports_exclusive:
  assumes "reachable sys"
  shows "(\<forall>c1 c2 i1 i2. conns sys c1 = Some i1 \<and> authenticated i1 \<and>
             conns sys c2 = Some i2 \<and> authenticated i2 \<and> c1 \<noteq> c2 \<longrightarrow>
             srt_port i1 \<noteq> srt_port i2) \<and>
         (\<forall>c i. conns sys c = Some i \<and> authenticated i \<longrightarrow>
             (\<exists>p. srt_port i = Some p \<and> p < next_srt_port (srv sys))) \<and>
         (\<forall>ev. next_srt_port (srv sys) \<le> next_srt_port (srv (fst (step sys ev)))) \<and>
         (\<forall>ws e. next_srt_port (srv (fst (step sys (Disconnect ws e)))) = next_srt_port (srv sys) \<and>
                 conns (fst (step sys (Disconnect ws e))) ws = None \<and>
                 map_of (clients (srv (fst (step sys (Disconnect ws e))))) ws = None) \<and>
         (\<forall>e p. snd (allocate_srt_port e (srv sys)) = Inr (Some p) \<longrightarrow>
             next_srt_port (srv sys) \<le> p \<and> bind_ok e AF_INET p \<and> bind_ok e AF_INET6 p)"
proof -
  note inv = reachable_coord_inv[OF assms]
  have 1: "\<forall>c1 c2 i1 i2. conns sys c1 = Some i1 \<and> authenticated i1 \<and>
             conns sys c2 = Some i2 \<and> authenticated i2 \<and> c1 \<noteq> c2 \<longrightarrow>
             srt_port i1 \<noteq> srt_port i2"
  proof (intro allI impI, elim conjE)
    fix c1 c2 i1 i2
    assume a: "conns sys c1 = Some i1" "authenticated i1" "conns sys c2 = Some i2" "authenticated i2"
      and ne: "c1 \<noteq> c2"
    from coord_inv_connsD[OF inv a(1)] a(2) have m1: "map_of (clients (srv sys)) c1 = Some i1" by simp
    from coord_inv_connsD[OF inv a(3)] a(4) have m2: "map_of (clients (srv sys)) c2 = Some i2" by simp
    from coord_inv_portsD[OF inv m1 m2] ne show "srt_port i1 \<noteq> srt_port i2" by blast
  qed
  have 2: "\<forall>c i. conns sys c = Some i \<and> authenticated i \<longrightarrow>
             (\<exists>p. srt_port i = Some p \<and> p < next_srt_port (srv sys))"
  proof (intro allI impI, elim conjE)
    fix c i assume a: "conns sys c = Some i" "authenticated i"
    from coord_inv_connsD[OF inv a(1)] a(2) have "map_of (clients (srv sys)) c = Some i" by simp
    from coord_inv_clientsD[OF inv this] show "\<exists>p. srt_port i = Some p \<and> p < next_srt_port (srv sys)"
      by blast
  qed
  have 3: "\<forall>ev. next_srt_port (srv sys) \<le> next_srt_port (srv (fst (step sys ev)))"
    using step_cursor_mono[OF inv] by blast
  have 4: "\<forall>ws e. next_srt_port (srv (fst (step sys (Disconnect ws e)))) = next_srt_port (srv sys) \<and>
                 conns (fst (step sys (Disconnect ws e))) ws = None \<and>
                 map_of (clients (srv (fst (step sys (Disconnect ws e))))) ws = None"
  proof (intro allI)
    fix ws e
    show "next_srt_port (srv (fst (step sys (Disconnect ws e)))) = next_srt_port (srv sys) \<and>
                 conns (fst (step sys (Disconnect ws e))) ws = None \<and>
                 map_of (clients (srv (fst (step sys (Disconnect ws e))))) ws = None"
    proof (cases "conns sys ws")
      case None
      have "map_of (clients (srv sys)) ws = None"
      proof (rule ccontr)
        assume "map_of (clients (srv sys)) ws \<noteq> None"
        then obtain i where "map_of (clients (srv sys)) ws = Some i" by auto
        from coord_inv_clientsD[OF inv this] None show False by simp
      qed
      with None show ?thesis by simp
    next
      case (Some ci)
      with cleanup_client_fields[of e "srv sys" ws] show ?thesis
        by (simp add: split_beta delete_conv')
    qed
  qed
  from 1 2 3 4 allocate_srt_port_result show ?thesis by blast
qed

lemma reachable_sys1: "reachable sys1"
  unfolding sys1_def by (rule reachable_sys0_run)

lemma sys2_simp:
  "sys2 =
    \<lparr> srv = \<lparr> verification_code = ''114514'', clients = [], nicknames = {|Some ''Archer''|},
              next_srt_port = 10001, bind_ip = ''0.0.0.0'', sender_nickname = Some ''Archer'',
              relays = {||}, on_message_callback = True, on_member_update_callback = True \<rparr>,
       conns = Map.empty \<rparr>"
  unfolding sys2_def sys1_simp
  by (simp add: cleanup_client_def Let_def ffmpeg_stop_process_def process_name_def str_int_def
        str_nat.simps digit_char_def env_ok_def)

theorem stream_ports_exclusive_witness:
  "reachable sys1 \<and>
   srt_port (the (conns sys1 1)) = Some 10000 \<and>
   next_srt_port (srv sys1) = 10001 \<and>
   next_srt_port (srv (fst (step sys1
                                 (Disconnect 1 env_ok)))) = 10001"
proof -
  have r: "reachable sys1"
    by (rule reachable_sys1)
  from stream_ports_exclusive[OF r] r show ?thesis
    by (simp add: sys1_simp cleanup_client_fields split_beta)
qed

text \<open>
  Claim C2 as stated fails: a viewer is given port 10000 and disconnects; the port is free
  again on both families, yet the allocator answers 10001, and for no answer of the
  operating system does it answer 10000.
\<close>

theorem released_port_not_reallocated:
  "srt_port (the (conns sys1 1)) = Some 10000 \<and>
   conns (sys2) 1 = None \<and>
   bind_ok env_ok AF_INET 10000 \<and> bind_ok env_ok AF_INET6 10000 \<and>
   snd (allocate_srt_port env_ok
         (srv (sys2)))
     = Inr (Some 10001) \<and>
   (\<forall>e. snd (allocate_srt_port e
         (srv (sys2)))
     \<noteq> Inr (Some 10000))"
proof -
  have "\<And>e. snd (allocate_srt_port e
         (srv (sys2)))
     \<noteq> Inr (Some 10000)"
  proof
    fix e
    assume "snd (allocate_srt_port e
         (srv (sys2)))
     = Inr (Some 10000)"
    from allocate_srt_port_result[OF this] show False by (simp add: sys2_simp)
  qed
  moreover have "snd (allocate_srt_port env_ok
         (srv (sys2)))
     = Inr (Some 10001)"
    unfolding sys2_simp by (simp add: allocate_srt_port_def find_first_free env_ok_def)
  ultimately show ?thesis by (simp add: sys1_simp sys2_simp) (simp add: env_ok_def)
qed

subsection \<open>Chat fan-out\<close>

definition send_to :: "env \<Rightarrow> outbound \<Rightarrow> websocket \<Rightarrow> action" where
  "send_to e m ws = (if send_ok e ws then Sent ws m else SendFailed ws m)"

lemma broadcast_over_table:
  "(\<And>k i. (k, i) \<in> set al \<Longrightarrow> authenticated i \<and> websocket i = k) \<Longrightarrow>
     concat (map (\<lambda>ci. send_raw_message e (websocket ci) m) (filter authenticated (map snd al))) =
     map (send_to e m) (map fst al)"
proof (induction al)
  case Nil
  show ?case by simp
next
  case (Cons a al)
  obtain k i where a: "a = (k, i)" by (cases a)
  from Cons.prems[of k i] a have h: "authenticated i" "websocket i = k" by simp_all
  have "\<And>k i. (k, i) \<in> set al \<Longrightarrow> authenticated i \<and> websocket i = k"
    using Cons.prems by (meson list.set_intros(2))
  from Cons.IH[OF this] a h show ?case
    by (simp add: send_raw_message_def send_to_def)
qed

lemma broadcast_message_keys:
  assumes inv: "coord_inv sys"
  shows "broadcast_message e (srv sys) m = map (send_to e m) (map fst (clients (srv sys)))"
proof -
  have "\<And>k i. (k, i) \<in> set (clients (srv sys)) \<Longrightarrow> authenticated i \<and> websocket i = k"
  proof -
    fix k i assume "(k, i) \<in> set (clients (srv sys))"
    with coord_inv_distinctD[OF inv] have m: "map_of (clients (srv sys)) k = Some i" by simp
    from coord_inv_clientsD[OF inv m] have "conns sys k = Some i" "authenticated i" by simp_all
    with coord_inv_connsD[OF inv \<open>conns sys k = Some i\<close>]
    show "authenticated i \<and> websocket i = k" by simp
  qed
  from broadcast_over_table[OF this] show ?thesis by (simp add: broadcast_message_def)
qed

lemma count_sent:
  "distinct ks \<Longrightarrow>
     count_list (map (send_to e m) ks) (Sent r m) = (if r \<in> set ks \<and> send_ok e r then 1 else 0)"
  by (induction ks) (auto simp: send_to_def)

lemma count_send_failed:
  "distinct ks \<Longrightarrow>
     count_list (map (send_to e m) ks) (SendFailed r m) = (if r \<in> set ks \<and> \<not> send_ok e r then 1 else 0)"
  by (induction ks) (auto simp: send_to_def)

lemma sends_of_table:
  "Sent r m' \<in> set (map (send_to e m) ks) \<or> SendFailed r m' \<in> set (map (send_to e m) ks) \<Longrightarrow>
     m' = m \<and> r \<in> set ks"
  by (auto simp: send_to_def split: if_splits)

text \<open>
  Claim C8. A chat message of an authenticated connection leaves the session state as it
  is and is sent once to every connection that is authenticated at that moment,
  the sender's own included: one send per connection, delivered when that send succeeds
  and logged as failed when it raises, whatever happens to the sends to the others.
  Every send of the step carries the same message: the sender's resolved nickname, the
  text as received, and the timestamp.
\<close>

theorem chat_fan_out:
  assumes "reachable sys" and "conns sys ws = Some ci" and "authenticated ci"
    and "data ''type'' = Some ''chat''"
    and "msg = Chat (nickname ci) (case data ''message'' of None \<Rightarrow> [] | Some t \<Rightarrow> t) (now e)"
  shows "fst (step sys (Receive ws (Object data) e)) = sys \<and>
         (\<forall>r i. conns sys r = Some i \<and> authenticated i \<longrightarrow>
            count_list (snd (step sys (Receive ws (Object data) e))) (Sent r msg) =
              (if send_ok e r then 1 else 0) \<and>
            count_list (snd (step sys (Receive ws (Object data) e))) (SendFailed r msg) =
              (if send_ok e r then 0 else 1)) \<and>
         (\<forall>r m. Sent r m \<in> set (snd (step sys (Receive ws (Object data) e))) \<or>
                SendFailed r m \<in> set (snd (step sys (Receive ws (Object data) e))) \<longrightarrow>
            m = msg \<and> (\<exists>i. conns sys r = Some i \<and> authenticated i))"
proof -
  note inv = reachable_coord_inv[OF assms(1)]
  let ?ks = "map fst (clients (srv sys))"
  let ?cb = "if on_message_callback (srv sys)
             then [MessageCallback (nickname ci) (case data ''message'' of None \<Rightarrow> [] | Some t \<Rightarrow> t)]
             else []"
  from coord_inv_connsD[OF inv assms(2)] assms(3)
  have tab: "map_of (clients (srv sys)) ws = Some ci" by simp
  from assms(2) have triv: "(conns sys)(ws \<mapsto> ci) = conns sys" by (rule map_upd_triv)
  have hm: "handle_message e (srv sys) ws ci (Object data) =
              (srv sys, ci, map (send_to e msg) ?ks @ ?cb)"
    using assms(3,4,5) tab broadcast_message_keys[OF inv, of e msg]
    by (simp add: handle_message_def handle_chat_def Let_def)
  have st: "step sys (Receive ws (Object data) e) = (sys, map (send_to e msg) ?ks @ ?cb)"
    using assms(2) hm triv by simp
  have dk: "distinct ?ks" by (rule coord_inv_distinctD[OF inv])
  have cb: "\<And>a. count_list ?cb (Sent a msg) = 0" "\<And>a. count_list ?cb (SendFailed a msg) = 0"
    by simp_all
  have keys: "\<And>r i. conns sys r = Some i \<Longrightarrow> authenticated i \<Longrightarrow> r \<in> set ?ks"
  proof -
    fix r i assume a: "conns sys r = Some i" "authenticated i"
    from coord_inv_connsD[OF inv a(1)] a(2) have "map_of (clients (srv sys)) r = Some i" by simp
    hence "(r, i) \<in> set (clients (srv sys))" by (rule map_of_SomeD)
    thus "r \<in> set ?ks" by force
  qed
  have keys': "\<And>r. r \<in> set ?ks \<Longrightarrow> \<exists>i. conns sys r = Some i \<and> authenticated i"
  proof -
    fix r assume "r \<in> set ?ks"
    then obtain i where "(r, i) \<in> set (clients (srv sys))" by auto
    with dk have "map_of (clients (srv sys)) r = Some i" by simp
    from coord_inv_clientsD[OF inv this] show "\<exists>i. conns sys r = Some i \<and> authenticated i" by blast
  qed
  have 1: "fst (step sys (Receive ws (Object data) e)) = sys" by (simp only: st fst_conv)
  have 2: "\<forall>r i. conns sys r = Some i \<and> authenticated i \<longrightarrow>
            count_list (snd (step sys (Receive ws (Object data) e))) (Sent r msg) =
              (if send_ok e r then 1 else 0) \<and>
            count_list (snd (step sys (Receive ws (Object data) e))) (SendFailed r msg) =
              (if send_ok e r then 0 else 1)"
  proof (intro allI impI, elim conjE)
    fix r i assume a: "conns sys r = Some i" "authenticated i"
    from keys[OF a] have "r \<in> set ?ks" .
    thus "count_list (snd (step sys (Receive ws (Object data) e))) (Sent r msg) =
              (if send_ok e r then 1 else 0) \<and>
            count_list (snd (step sys (Receive ws (Object data) e))) (SendFailed r msg) =
              (if send_ok e r then 0 else 1)"
      by (simp only: st snd_conv count_list_append cb count_sent[OF dk] count_send_failed[OF dk]) simp
  qed
  have 3: "\<forall>r m. Sent r m \<in> set (snd (step sys (Receive ws (Object data) e))) \<or>
                SendFailed r m \<in> set (snd (step sys (Receive ws (Object data) e))) \<longrightarrow>
            m = msg \<and> (\<exists>i. conns sys r = Some i \<and> authenticated i)"
  proof (intro allI impI)
    fix r m
    assume "Sent r m \<in> set (snd (step sys (Receive ws (Object data) e))) \<or>
            SendFailed r m \<in> set (snd (step sys (Receive ws (Object data) e)))"
    hence "Sent r m \<in> set (map (send_to e msg) ?ks) \<or> SendFailed r m \<in> set (map (send_to e msg) ?ks)"
      by (simp only: st snd_conv set_append) (auto split: if_splits)
    from sends_of_table[OF this] keys' show "m = msg \<and> (\<exists>i. conns sys r = Some i \<and> authenticated i)"
      by blast
  qed
  from 1 2 3 show ?thesis by blast
qed

definition env_drop :: env where
  "env_drop = env_ok\<lparr> send_ok := (\<lambda>ws. ws \<noteq> 1) \<rparr>"

definition sys_two :: system where
  "sys_two = run sys1 [Connect 2, Receive 2 (auth_request ''114514'' ''Saber'') env_ok]"

lemma reachable_sys_two: "reachable sys_two"
  unfolding sys_two_def by (rule reachable_run) (rule reachable_sys1)

lemma sys_two_simp:
  "sys_two =
    \<lparr> srv = \<lparr> verification_code = ''114514'',
              clients = [(1, \<lparr> websocket = 1, authenticated = True, nickname = Some ''Saber'', srt_port = Some 10000 \<rparr>),
                         (2, \<lparr> websocket = 2, authenticated = True, nickname = Some ''Saber_2'', srt_port = Some 10001 \<rparr>)],
              nicknames = {|Some ''Saber_2'', Some ''Saber'', Some ''Archer''|},
              next_srt_port = 10002, bind_ip = ''0.0.0.0'', sender_nickname = Some ''Archer'',
              relays = {|''client_Saber_2_10001'', ''client_Saber_10000''|},
              on_message_callback = True, on_member_update_callback = True \<rparr>,
       conns = [1 \<mapsto> \<lparr> websocket = 1, authenticated = True, nickname = Some ''Saber'', srt_port = Some 10000 \<rparr>,
                2 \<mapsto> \<lparr> websocket = 2, authenticated = True, nickname = Some ''Saber_2'', srt_port = Some 10001 \<rparr>] \<rparr>"
  unfolding sys_two_def sys1_simp
  by (simp add: auth_request_def new_client_def handle_message_def handle_auth_def Let_def
        resolve_nickname_def first_free_counter.simps suffixed_def
        allocate_srt_port_def find_first_free env_ok_def
        start_rtmp_to_srt_def process_name_def str_int_def str_nat.simps digit_char_def)

theorem chat_fan_out_witness:
  "reachable sys_two \<and>
   fst (step sys_two (Receive 1 (chat_request ''hi'') env_drop)) = sys_two \<and>
   count_list (snd (step sys_two (Receive 1 (chat_request ''hi'') env_drop)))
     (Sent 2 (Chat (Some ''Saber'') ''hi'' ''2024-05-01T20:00:00'')) = 1 \<and>
   count_list (snd (step sys_two (Receive 1 (chat_request ''hi'') env_drop)))
     (SendFailed 1 (Chat (Some ''Saber'') ''hi'' ''2024-05-01T20:00:00'')) = 1"
proof -
  let ?c1 = "\<lparr> websocket = 1, authenticated = True, nickname = Some ''Saber'', srt_port = Some 10000 \<rparr>"
  let ?c2 = "\<lparr> websocket = 2, authenticated = True, nickname = Some ''Saber_2'', srt_port = Some 10001 \<rparr>"
  let ?d = "[''type'' \<mapsto> ''chat'', ''message'' \<mapsto> ''hi'']"
  let ?m = "Chat (Some ''Saber'') ''hi'' ''2024-05-01T20:00:00''"
  have c1: "conns sys_two 1 = Some ?c1" and c2: "conns sys_two 2 = Some ?c2"
    by (simp_all add: sys_two_simp)
  have a: "authenticated ?c1" "authenticated ?c2" by simp_all
  have t: "?d ''type'' = Some ''chat''" by simp
  have m: "?m = Chat (nickname ?c1) (case ?d ''message'' of None \<Rightarrow> [] | Some t \<Rightarrow> t) (now env_drop)"
    by (simp add: env_drop_def env_ok_def)
  have ok: "send_ok env_drop 2" "\<not> send_ok env_drop 1" by (simp_all add: env_drop_def env_ok_def)
  note th = chat_fan_out[OF reachable_sys_two c1 a(1) t m]
  from th have 1: "fst (step sys_two (Receive 1 (Object ?d) env_drop)) = sys_two" by blast
  from th have all: "\<forall>r i. conns sys_two r = Some i \<and> authenticated i \<longrightarrow>
            count_list (snd (step sys_two (Receive 1 (Object ?d) env_drop))) (Sent r ?m) =
              (if send_ok env_drop r then 1 else 0) \<and>
            count_list (snd (step sys_two (Receive 1 (Object ?d) env_drop))) (SendFailed r ?m) =
              (if send_ok env_drop r then 0 else 1)" by blast
  from all[rule_format, of 2 ?c2] c2 a(2) ok(1)
  have 2: "count_list (snd (step sys_two (Receive 1 (Object ?d) env_drop))) (Sent 2 ?m) = 1"
    by (simp only: simp_thms if_True)
  from all[rule_format, of 1 ?c1] c1 a(1) ok(2)
  have 3: "count_list (snd (step sys_two (Receive 1 (Object ?d) env_drop))) (SendFailed 1 ?m) = 1"
    by (simp only: simp_thms if_False)
  from 1 2 3 reachable_sys_two show ?thesis by (simp only: chat_request_def simp_thms)
qed

subsection \<open>Failed authentication\<close>

text \<open>
  The reply a run of \<open>_handle_auth\<close> ends with when it fails by one of its three early
  returns, taken in order: the code is wrong, no port is found, the relay start answers
  \<open>False\<close> (the process name is already in the table of the manager, or the supervisor
  does not start the process). \<open>None\<close> when none of them is taken: the join succeeds, or
  an exception leaves the handler.
\<close>

definition auth_failure :: "env \<Rightarrow> server \<Rightarrow> (string \<rightharpoonup> string) \<Rightarrow> outbound option" where
  "auth_failure e s data =
     (if data ''code'' \<noteq> Some (verification_code s) then Some AuthFailed
      else case fst (find_available_port (bind_ok e) (next_srt_port s) 100) of
             Inl exc \<Rightarrow> None
           | Inr None \<Rightarrow> Some (ErrorMsg NoSrtPort)
           | Inr (Some p) \<Rightarrow>
               (case snd (start_rtmp_to_srt e s p
                            (process_name (resolve_nickname (nicknames s) (data ''nickname'')) p)) of
                  Inr False \<Rightarrow> Some (ErrorMsg RelayFailed)
                | Inr True \<Rightarrow> None
                | Inl exc \<Rightarrow> None))"

fun is_relay_start :: "action \<Rightarrow> bool" where
  "is_relay_start (StartRelay name port ip) = True"
| "is_relay_start a = False"

lemma start_rtmp_to_srt_cursor:
  "snd (start_rtmp_to_srt e (s\<lparr> next_srt_port := x \<rparr>) p n) = snd (start_rtmp_to_srt e s p n)"
  "snd (start_rtmp_to_srt e s p n) \<noteq> Inr True \<Longrightarrow>
     fst (start_rtmp_to_srt e (s\<lparr> next_srt_port := x \<rparr>) p n) = s\<lparr> next_srt_port := x \<rparr>"
  by (auto simp: start_rtmp_to_srt_def)

lemma handle_auth_failure:
  assumes "auth_failure e s data = Some reply"
  shows "\<exists>x pre. handle_auth e s cid ci data =
           (s\<lparr> next_srt_port := x \<rparr>, ci,
            pre @ [if send_ok e (websocket ci) then Sent (websocket ci) reply
                   else SendFailed (websocket ci) reply, Close (websocket ci)], Returned) \<and>
           list_all is_relay_start pre \<and>
           (reply \<noteq> ErrorMsg RelayFailed \<longrightarrow> x = next_srt_port s \<and> pre = []) \<and>
           (reply = ErrorMsg RelayFailed \<longrightarrow>
              (\<exists>p. fst (find_available_port (bind_ok e) (next_srt_port s) 100) = Inr (Some p) \<and>
                   x = (if p \<noteq> 0 then p + 1 else next_srt_port s)))"
proof (cases "data ''code'' = Some (verification_code s)")
  case False
  with assms have r: "reply = AuthFailed" by (simp add: auth_failure_def)
  with False have "handle_auth e s cid ci data =
           (s\<lparr> next_srt_port := next_srt_port s \<rparr>, ci,
            [] @ [if send_ok e (websocket ci) then Sent (websocket ci) reply
                  else SendFailed (websocket ci) reply, Close (websocket ci)], Returned)"
    by (simp add: handle_auth_def Let_def send_message_def)
  thus ?thesis using r by (intro exI[of _ "next_srt_port s"] exI[of _ "[]"]) simp
next
  case True
  show ?thesis
  proof (cases "fst (find_available_port (bind_ok e) (next_srt_port s) 100)")
    case (Inl exc)
    with True assms show ?thesis by (simp add: auth_failure_def)
  next
    case (Inr ro)
    show ?thesis
    proof (cases ro)
      case None
      with Inr True assms have r: "reply = ErrorMsg NoSrtPort" by (simp add: auth_failure_def)
      with True Inr None have "handle_auth e s cid ci data =
           (s\<lparr> next_srt_port := next_srt_port s \<rparr>, ci,
            [] @ [if send_ok e (websocket ci) then Sent (websocket ci) reply
                  else SendFailed (websocket ci) reply, Close (websocket ci)], Returned)"
        by (simp add: handle_auth_def Let_def allocate_srt_port_def send_error_def send_message_def)
      thus ?thesis using r by (intro exI[of _ "next_srt_port s"] exI[of _ "[]"]) simp
    next
      case (Some p)
      let ?name = "process_name (resolve_nickname (nicknames s) (data ''nickname'')) p"
      let ?x = "if p \<noteq> 0 then p + 1 else next_srt_port s"
      from True Inr Some assms have r: "reply = ErrorMsg RelayFailed"
        and f: "snd (start_rtmp_to_srt e s p ?name) = Inr False"
        by (auto simp: auth_failure_def split: sum.splits bool.splits)
      have al: "allocate_srt_port e s = (s\<lparr> next_srt_port := ?x \<rparr>, Inr (Some p))"
        using Inr Some by (simp add: allocate_srt_port_def)
      have st: "start_rtmp_to_srt e (s\<lparr> next_srt_port := ?x \<rparr>) p ?name =
                  (s\<lparr> next_srt_port := ?x \<rparr>, Inr False)"
        using f start_rtmp_to_srt_cursor[where e = e and s = s and x = ?x and p = p and n = ?name]
        by (simp add: prod_eq_iff)
      from True al st have "handle_auth e s cid ci data =
           (s\<lparr> next_srt_port := ?x \<rparr>, ci,
            [StartRelay ?name p (bind_ip s)] @
            [if send_ok e (websocket ci) then Sent (websocket ci) reply
             else SendFailed (websocket ci) reply, Close (websocket ci)], Returned)"
        by (simp add: handle_auth_def Let_def send_error_def send_message_def r)
      thus ?thesis using r Inr Some
        by (intro exI[of _ ?x] exI[of _ "[StartRelay ?name p (bind_ip s)]"]) simp
    qed
  qed
qed

lemma get_online_members_cursor:
  "get_online_members (s\<lparr> next_srt_port := x \<rparr>) = get_online_members s"
  by (simp add: get_online_members_def)

text \<open>
  Claim C5, as amended. On each of the three failing returns of authentication (wrong
  code, no port found, relay start answering failure) the Coordinator sends the reply of
  that branch and then closes the connection, and the handler returns; the connection
  stays unauthenticated; the nickname set, the client table, the relay table and hence
  the member list are the ones before. On the first two branches the whole state is the
  one before. On the relay branch the port cursor, and nothing else, has moved past the
  port that was probed.
\<close>

theorem failed_authentication_commits_nothing:
  assumes "auth_failure e s data = Some reply"
    and "handle_auth e s cid ci data = (s', ci', acts, fin)"
  shows "fin = Returned \<and>
         reply = (if data ''code'' \<noteq> Some (verification_code s) then AuthFailed
                  else if fst (find_available_port (bind_ok e) (next_srt_port s) 100) = Inr None
                  then ErrorMsg NoSrtPort else ErrorMsg RelayFailed) \<and>
         filter (\<lambda>a. \<not> is_relay_start a) acts =
           [if send_ok e (websocket ci) then Sent (websocket ci) reply
            else SendFailed (websocket ci) reply, Close (websocket ci)] \<and>
         ci' = ci \<and>
         nicknames s' = nicknames s \<and> clients s' = clients s \<and> relays s' = relays s \<and>
         get_online_members s' = get_online_members s \<and>
         (reply \<noteq> ErrorMsg RelayFailed \<longrightarrow> s' = s) \<and>
         (reply = ErrorMsg RelayFailed \<longrightarrow>
            (\<exists>p. fst (find_available_port (bind_ok e) (next_srt_port s) 100) = Inr (Some p) \<and>
                 s' = s\<lparr> next_srt_port := (if p \<noteq> 0 then p + 1 else next_srt_port s) \<rparr>))"
proof -
  from handle_auth_failure[OF assms(1), of cid ci]
  obtain x pre where h: "handle_auth e s cid ci data =
           (s\<lparr> next_srt_port := x \<rparr>, ci,
            pre @ [if send_ok e (websocket ci) then Sent (websocket ci) reply
                   else SendFailed (websocket ci) reply, Close (websocket ci)], Returned)"
    and pre: "list_all is_relay_start pre"
    and same: "reply \<noteq> ErrorMsg RelayFailed \<longrightarrow> x = next_srt_port s \<and> pre = []"
    and moved: "reply = ErrorMsg RelayFailed \<longrightarrow>
              (\<exists>p. fst (find_available_port (bind_ok e) (next_srt_port s) 100) = Inr (Some p) \<and>
                   x = (if p \<noteq> 0 then p + 1 else next_srt_port s))"
    by blast
  from h assms(2) have s': "s' = s\<lparr> next_srt_port := x \<rparr>" and ci': "ci' = ci"
    and acts: "acts = pre @ [if send_ok e (websocket ci) then Sent (websocket ci) reply
                             else SendFailed (websocket ci) reply, Close (websocket ci)]"
    and fin: "fin = Returned"
    by simp_all
  from pre have "filter (\<lambda>a. \<not> is_relay_start a) pre = []"
    by (induction pre) simp_all
  hence 1: "filter (\<lambda>a. \<not> is_relay_start a) acts =
           [if send_ok e (websocket ci) then Sent (websocket ci) reply
            else SendFailed (websocket ci) reply, Close (websocket ci)]"
    by (simp add: acts)
  from same have 2: "reply \<noteq> ErrorMsg RelayFailed \<longrightarrow> s' = s" by (simp add: s')
  from moved have 3: "reply = ErrorMsg RelayFailed \<longrightarrow>
            (\<exists>p. fst (find_available_port (bind_ok e) (next_srt_port s) 100) = Inr (Some p) \<and>
                 s' = s\<lparr> next_srt_port := (if p \<noteq> 0 then p + 1 else next_srt_port s) \<rparr>)"
    unfolding s' by blast
  have 4: "reply = (if data ''code'' \<noteq> Some (verification_code s) then AuthFailed
                  else if fst (find_available_port (bind_ok e) (next_srt_port s) 100) = Inr None
                  then ErrorMsg NoSrtPort else ErrorMsg RelayFailed)"
    using assms(1) by (auto simp: auth_failure_def split: if_splits sum.splits option.splits bool.splits)
  have 5: "nicknames s' = nicknames s \<and> clients s' = clients s \<and> relays s' = relays s \<and>
         get_online_members s' = get_online_members s"
    by (simp add: s' get_online_members_cursor)
  from 1 2 3 4 5 ci' fin show ?thesis by blast
qed

lemma find_available_port_all_busy:
  assumes busy: "\<And>q. \<not> os AF_INET q" and lo: "0 \<le> st" and hi: "st + n \<le> 65536"
  shows "fst (find_available_port os st n) = Inr None"
proof -
  obtain r lg where fl: "find_loop os st n 0 = (r, lg)" by force
  note sp = find_loop_spec[OF fl, simplified]
  have "r = Inr None"
  proof (cases r)
    case (Inl exc)
    with sp obtain p where "st \<le> p" "p < st + n" "\<not> port_in_range p" by auto
    with lo hi show ?thesis by (simp add: port_in_range_def)
  next
    case (Inr ro)
    show ?thesis
    proof (cases ro)
      case None
      with Inr show ?thesis by simp
    next
      case (Some p)
      with Inr sp have "fully_available os p" by simp
      with busy show ?thesis by (simp add: fully_available_def)
    qed
  qed
  with fl show ?thesis by (simp add: find_available_port_def)
qed

text \<open>
  Three runs from the fresh session on connection 7: a wrong code; the right code while
  every port is taken; the right code while the supervisor does not start the relay.
\<close>

definition wrong_code :: "string \<rightharpoonup> string" where
  "wrong_code = [''type'' \<mapsto> ''auth'', ''code'' \<mapsto> ''000000'', ''nickname'' \<mapsto> ''Rider'']"

definition right_code :: "string \<rightharpoonup> string" where
  "right_code = [''type'' \<mapsto> ''auth'', ''code'' \<mapsto> ''114514'', ''nickname'' \<mapsto> ''Rider'']"

definition env_all_busy :: env where
  "env_all_busy = env_ok\<lparr> bind_ok := os_busy \<rparr>"

definition env_no_launch :: env where
  "env_no_launch = env_ok\<lparr> launch_ok := False \<rparr>"

definition env_no_log :: env where
  "env_no_log = env_ok\<lparr> logger_ok := (\<lambda>name. False) \<rparr>"

lemma find_all_busy_10000:
  "fst (find_available_port os_busy 10000 100) = Inr None"
  by (rule find_available_port_all_busy) (simp_all add: os_busy_def)

lemma wrong_code_run:
  "auth_failure env_ok (srv sys0) wrong_code = Some AuthFailed"
  "handle_auth env_ok (srv sys0) 7 (new_client 7) wrong_code =
     (srv sys0, new_client 7, [Sent 7 AuthFailed, Close 7], Returned)"
  by (simp_all add: auth_failure_def handle_auth_def wrong_code_def sys0_simp Let_def
        send_message_def new_client_def env_ok_def)

lemma all_busy_run:
  "auth_failure env_all_busy (srv sys0) right_code = Some (ErrorMsg NoSrtPort)"
  "handle_auth env_all_busy (srv sys0) 7 (new_client 7) right_code =
     (srv sys0, new_client 7, [Sent 7 (ErrorMsg NoSrtPort), Close 7], Returned)"
  by (simp_all add: auth_failure_def handle_auth_def right_code_def sys0_simp Let_def
        send_message_def send_error_def new_client_def env_all_busy_def env_ok_def
        allocate_srt_port_def find_all_busy_10000)

lemma no_launch_run:
  "auth_failure env_no_launch (srv sys0) right_code = Some (ErrorMsg RelayFailed)"
  "handle_auth env_no_launch (srv sys0) 7 (new_client 7) right_code =
     ((srv sys0)\<lparr> next_srt_port := 10001 \<rparr>, new_client 7,
      [StartRelay ''client_Rider_10000'' 10000 ''0.0.0.0'', Sent 7 (ErrorMsg RelayFailed), Close 7],
      Returned)"
  by (simp_all add: auth_failure_def handle_auth_def right_code_def sys0_simp Let_def
        send_message_def send_error_def new_client_def env_no_launch_def env_ok_def
        allocate_srt_port_def find_first_free start_rtmp_to_srt_def resolve_nickname_def
        process_name_def str_int_def str_nat.simps digit_char_def)

theorem failed_authentication_commits_nothing_witness:
  "handle_auth env_ok (srv sys0) 7 (new_client 7) wrong_code =
     (srv sys0, new_client 7, [Sent 7 AuthFailed, Close 7], Returned) \<and>
   handle_auth env_all_busy (srv sys0) 7 (new_client 7) right_code =
     (srv sys0, new_client 7, [Sent 7 (ErrorMsg NoSrtPort), Close 7], Returned) \<and>
   handle_auth env_no_launch (srv sys0) 7 (new_client 7) right_code =
     ((srv sys0)\<lparr> next_srt_port := 10001 \<rparr>, new_client 7,
      [StartRelay ''client_Rider_10000'' 10000 ''0.0.0.0'', Sent 7 (ErrorMsg RelayFailed), Close 7],
      Returned) \<and>
   filter (\<lambda>a. \<not> is_relay_start a)
     [StartRelay ''client_Rider_10000'' 10000 ''0.0.0.0'', Sent 7 (ErrorMsg RelayFailed), Close 7] =
     [Sent 7 (ErrorMsg RelayFailed), Close 7] \<and>
   nicknames ((srv sys0)\<lparr> next_srt_port := 10001 \<rparr>) = {|Some ''Archer''|} \<and>
   clients ((srv sys0)\<lparr> next_srt_port := 10001 \<rparr>) = [] \<and>
   get_online_members ((srv sys0)\<lparr> next_srt_port := 10001 \<rparr>) = [(Some ''Archer'', Sender)]"
proof -
  note t = failed_authentication_commits_nothing[OF no_launch_run]
  have s: "send_ok env_no_launch (websocket (new_client 7))" "websocket (new_client 7) = 7"
    by (simp_all add: env_no_launch_def env_ok_def new_client_def)
  have 1: "filter (\<lambda>a. \<not> is_relay_start a)
     [StartRelay ''client_Rider_10000'' 10000 ''0.0.0.0'', Sent 7 (ErrorMsg RelayFailed), Close 7] =
     [Sent 7 (ErrorMsg RelayFailed), Close 7]"
    using t[THEN conjunct2, THEN conjunct2, THEN conjunct1] s by simp
  have 2: "nicknames ((srv sys0)\<lparr> next_srt_port := 10001 \<rparr>) = nicknames (srv sys0)"
    and 3: "clients ((srv sys0)\<lparr> next_srt_port := 10001 \<rparr>) = clients (srv sys0)"
    and 4: "get_online_members ((srv sys0)\<lparr> next_srt_port := 10001 \<rparr>) = get_online_members (srv sys0)"
    using t by blast+
  have 5: "nicknames (srv sys0) = {|Some ''Archer''|}" "clients (srv sys0) = []"
    "get_online_members (srv sys0) = [(Some ''Archer'', Sender)]"
    by (simp_all add: sys0_simp get_online_members_def)
  from wrong_code_run(2) all_busy_run(2) no_launch_run(2) 1 2 3 4 5 show ?thesis
    by (simp only: simp_thms)
qed

text \<open>
  Claim C5 as stated fails on the relay branch: the run that ends with the relay error
  and the close leaves a state that differs from the one before, the port cursor having
  moved from 10000 to 10001.
\<close>

theorem failed_relay_start_moves_cursor:
  "auth_failure env_no_launch (srv sys0) right_code = Some (ErrorMsg RelayFailed) \<and>
   next_srt_port (srv sys0) = 10000 \<and>
   next_srt_port (fst (handle_auth env_no_launch (srv sys0) 7 (new_client 7) right_code)) = 10001 \<and>
   fst (handle_auth env_no_launch (srv sys0) 7 (new_client 7) right_code) \<noteq> srv sys0"
proof -
  have 1: "next_srt_port (srv sys0) = 10000" by (simp add: sys0_simp)
  have 2: "next_srt_port (fst (handle_auth env_no_launch (srv sys0) 7 (new_client 7) right_code)) = 10001"
    by (simp add: no_launch_run(2))
  from 1 2 have "fst (handle_auth env_no_launch (srv sys0) 7 (new_client 7) right_code) \<noteq> srv sys0"
    by auto
  with 1 2 no_launch_run(1) show ?thesis by blast
qed

text \<open>
  When the log file of the relay cannot be opened, \<open>start_rtmp_to_srt\<close> raises: the run
  ends without a reply and without a close, the cursor having moved.
\<close>

lemma relay_logger_failure_run:
  "auth_failure env_no_log (srv sys0) right_code = None \<and>
   handle_auth env_no_log (srv sys0) 7 (new_client 7) right_code =
     ((srv sys0)\<lparr> next_srt_port := 10001 \<rparr>, new_client 7,
      [StartRelay ''client_Rider_10000'' 10000 ''0.0.0.0''], Raised OSError)"
  by (simp add: auth_failure_def handle_auth_def right_code_def sys0_simp Let_def
        new_client_def env_no_log_def env_ok_def
        allocate_srt_port_def find_first_free start_rtmp_to_srt_def resolve_nickname_def
        process_name_def str_int_def str_nat.simps digit_char_def)

subsection \<open>Nickname resolution over a sequence of joins\<close>

fun is_auth_success :: "action \<Rightarrow> bool" where
  "is_auth_success (Sent ws (AuthSuccess n p ip)) = True"
| "is_auth_success (SendFailed ws (AuthSuccess n p ip)) = True"
| "is_auth_success a = False"

text \<open>
  A sequence of join requests, each on a new connection, each handled by \<open>_handle_auth\<close>;
  the result is \<open>None\<close> as soon as one of them is rejected, and otherwise the final state
  with the nicknames that were assigned, in order.
\<close>

fun joins :: "server \<Rightarrow> (env \<times> nat \<times> (string \<rightharpoonup> string)) list \<Rightarrow>
              (server \<times> string option list) option" where
  "joins s [] = Some (s, [])"
| "joins s ((e, ws, data) # reqs) =
     (case handle_auth e s ws (new_client ws) data of
        (s', ci', acts, fin) \<Rightarrow>
          if authenticated ci'
          then (case joins s' reqs of
                  None \<Rightarrow> None
                | Some (s'', names) \<Rightarrow> Some (s'', nickname ci' # names))
          else None)"

lemma filter_auth_success_broadcast:
  "(\<And>n p ip. m \<noteq> AuthSuccess n p ip) \<Longrightarrow> filter is_auth_success (broadcast_message e s m) = []"
proof -
  assume m: "\<And>n p ip. m \<noteq> AuthSuccess n p ip"
  have one: "\<And>ws. filter is_auth_success (send_raw_message e ws m) = []"
    using m by (cases m) (auto simp: send_raw_message_def)
  have "\<And>cs. filter is_auth_success (concat (map (\<lambda>ci. send_raw_message e (websocket ci) m) cs)) = []"
  proof -
    fix cs show "filter is_auth_success (concat (map (\<lambda>ci. send_raw_message e (websocket ci) m) cs)) = []"
      by (induction cs) (simp_all add: one)
  qed
  thus ?thesis by (simp add: broadcast_message_def)
qed

lemma handle_auth_success:
  assumes h: "handle_auth e s cid ci data = (s', ci', acts, fin)"
    and na: "\<not> authenticated ci" and a: "authenticated ci'"
  shows "nickname ci' = resolve_nickname (nicknames s) (data ''nickname'') \<and>
         nicknames s' = finsert (nickname ci') (nicknames s) \<and>
         (\<exists>p. srt_port ci' = Some p \<and>
              filter is_auth_success acts =
                [if send_ok e (websocket ci)
                 then Sent (websocket ci) (AuthSuccess (nickname ci') p (bind_ip s))
                 else SendFailed (websocket ci) (AuthSuccess (nickname ci') p (bind_ip s))])"
proof -
  let ?nick = "resolve_nickname (nicknames s) (data ''nickname'')"
  from h na a have code: "data ''code'' = Some (verification_code s)"
    by (auto simp: handle_auth_def Let_def split: if_splits)
  obtain s1 allocated where al: "allocate_srt_port e s = (s1, allocated)" by force
  have s1: "nicknames s1 = nicknames s" "bind_ip s1 = bind_ip s"
    using al by (auto simp: allocate_srt_port_def Let_def split: if_splits sum.splits)
  from h na a code al obtain p where port: "allocated = Inr (Some p)"
    by (cases allocated; cases "projr allocated")
       (auto simp: handle_auth_def Let_def split: sum.splits option.splits)
  obtain s2 started where st: "start_rtmp_to_srt e s1 p (process_name ?nick p) = (s2, started)" by force
  have s2: "nicknames s2 = nicknames s1" "bind_ip s2 = bind_ip s1"
    using st by (auto simp: start_rtmp_to_srt_def split: if_splits)
  from h na a code al port st have ok: "started = Inr True"
    by (cases started) (auto simp: handle_auth_def Let_def split: bool.splits)
  let ?ci = "ci\<lparr> authenticated := True, nickname := ?nick, srt_port := Some p \<rparr>"
  let ?s3 = "s2\<lparr> clients := AList.update cid ?ci (clients s2), nicknames := finsert ?nick (nicknames s2) \<rparr>"
  let ?acts = "StartRelay (process_name ?nick p) p (bind_ip s1) #
            send_message e (websocket ci) (AuthSuccess ?nick p (bind_ip ?s3)) @
            broadcast_message e ?s3 (Join ?nick) @
            send_members_list e ?s3 (websocket ci) @
            (if on_member_update_callback ?s3 then notify_member_update e ?s3 else [])"
  have hv: "handle_auth e s cid ci data = (?s3, ?ci, ?acts, Returned)"
    using code al port st ok by (simp add: handle_auth_def Let_def)
  note eq = trans[OF h[symmetric] hv, unfolded prod.inject]
  have r: "s' = ?s3" "ci' = ?ci" "acts = ?acts"
    using eq by (rule conjunct1, rule conjunct2[THEN conjunct1],
                 rule conjunct2[THEN conjunct2, THEN conjunct1])
  have f: "filter is_auth_success acts =
             [if send_ok e (websocket ci)
              then Sent (websocket ci) (AuthSuccess ?nick p (bind_ip s))
              else SendFailed (websocket ci) (AuthSuccess ?nick p (bind_ip s))]"
    unfolding r(3)
    by (simp add: filter_auth_success_broadcast send_members_list_def notify_member_update_def
          send_message_def s1 s2)
  from r f s1 s2 show ?thesis by simp
qed

lemma resolve_nickname_rule:
  "(n |\<notin>| names \<longrightarrow> resolve_nickname names n = n) \<and>
   (n |\<in>| names \<longrightarrow>
      (\<exists>k\<ge>2. resolve_nickname names n = Some (py_str n @ ''_'' @ str_nat k) \<and>
             Some (py_str n @ ''_'' @ str_nat k) |\<notin>| names \<and>
             (\<forall>j. 2 \<le> j \<and> j < k \<longrightarrow> Some (py_str n @ ''_'' @ str_nat j) |\<in>| names)))"
proof (cases "n |\<in>| names")
  case False
  thus ?thesis by (simp add: resolve_nickname_def)
next
  case True
  let ?k = "first_free_counter names n 2"
  from first_free_counter_spec[of 2 names n]
  have "2 \<le> ?k" "suffixed n ?k |\<notin>| names" "\<forall>j. 2 \<le> j \<and> j < ?k \<longrightarrow> suffixed n j |\<in>| names"
    by simp_all
  hence "2 \<le> ?k \<and> resolve_nickname names n = Some (py_str n @ ''_'' @ str_nat ?k) \<and>
         Some (py_str n @ ''_'' @ str_nat ?k) |\<notin>| names \<and>
         (\<forall>j. 2 \<le> j \<and> j < ?k \<longrightarrow> Some (py_str n @ ''_'' @ str_nat j) |\<in>| names)"
    using True by (simp add: resolve_nickname_def suffixed_def)
  with True show ?thesis by blast
qed

lemma joins_names:
  "joins s reqs = Some (s', names) \<Longrightarrow>
     length names = length reqs \<and> distinct names \<and>
     fset_of_list names |\<inter>| nicknames s = {||} \<and>
     nicknames s' = nicknames s |\<union>| fset_of_list names"
proof (induction reqs arbitrary: s names)
  case Nil
  thus ?case by simp
next
  case (Cons req reqs)
  obtain e ws data where req: "req = (e, ws, data)" by (cases req)
  obtain s1 ci1 acts fin where h: "handle_auth e s ws (new_client ws) data = (s1, ci1, acts, fin)"
    by (cases "handle_auth e s ws (new_client ws) data") auto
  from Cons.prems req h have a: "authenticated ci1"
    by (auto split: if_splits)
  from Cons.prems req h a obtain rest where
    j: "joins s1 reqs = Some (s', rest)" and names: "names = nickname ci1 # rest"
    by (auto split: option.splits)
  have na: "\<not> authenticated (new_client ws)" by (simp add: new_client_def)
  from handle_auth_success[OF h na a] resolve_nickname_fresh[of "nicknames s" "data ''nickname''"]
  have n1: "nicknames s1 = finsert (nickname ci1) (nicknames s)" and fresh: "nickname ci1 |\<notin>| nicknames s"
    by simp_all
  from Cons.IH[OF j] have IH: "length rest = length reqs" "distinct rest"
    "fset_of_list rest |\<inter>| nicknames s1 = {||}" "nicknames s' = nicknames s1 |\<union>| fset_of_list rest"
    by simp_all
  from IH(3) n1 have notin: "nickname ci1 \<notin> set rest"
    by (auto simp: fset_of_list.rep_eq)
  from IH(3) n1 have disj: "fset_of_list rest |\<inter>| nicknames s = {||}" by auto
  from IH names n1 fresh notin disj show ?case by auto
qed

text \<open>
  Claim C1. A successful join assigns the requested nickname when it is not in use, and
  otherwise the requested nickname followed by \<open>_k\<close> for the least \<open>k \<ge> 2\<close> whose suffixed
  name is not in use; the run makes exactly one send of an \<open>auth_success\<close> reply, to the
  joining connection, and that reply carries the assigned nickname (with the assigned
  port and the bind address); the assigned nickname is added to the set in use. After a
  sequence of N successful joins the set in use is the set before together with the N
  assigned nicknames, which are pairwise distinct and were not in use before.
\<close>

theorem nickname_collision_resolution:
  "(handle_auth e s cid ci data = (s1, ci1, acts, fin) \<and> \<not> authenticated ci \<and> authenticated ci1 \<longrightarrow>
      (data ''nickname'' |\<notin>| nicknames s \<longrightarrow> nickname ci1 = data ''nickname'') \<and>
      (data ''nickname'' |\<in>| nicknames s \<longrightarrow>
         (\<exists>k\<ge>2. nickname ci1 = Some (py_str (data ''nickname'') @ ''_'' @ str_nat k) \<and>
                Some (py_str (data ''nickname'') @ ''_'' @ str_nat k) |\<notin>| nicknames s \<and>
                (\<forall>j. 2 \<le> j \<and> j < k \<longrightarrow>
                     Some (py_str (data ''nickname'') @ ''_'' @ str_nat j) |\<in>| nicknames s))) \<and>
      nicknames s1 = finsert (nickname ci1) (nicknames s) \<and>
      (\<exists>p. srt_port ci1 = Some p \<and>
           filter is_auth_success acts =
             [if send_ok e (websocket ci)
              then Sent (websocket ci) (AuthSuccess (nickname ci1) p (bind_ip s))
              else SendFailed (websocket ci) (AuthSuccess (nickname ci1) p (bind_ip s))])) \<and>
   (joins s reqs = Some (s', names) \<longrightarrow>
      length names = length reqs \<and> distinct names \<and>
      fset_of_list names |\<inter>| nicknames s = {||} \<and>
      nicknames s' = nicknames s |\<union>| fset_of_list names \<and>
      fcard (nicknames s') = fcard (nicknames s) + length reqs)"
proof (intro conjI impI)
  assume j: "joins s reqs = Some (s', names)"
  note jn = joins_names[OF j]
  from jn show "length names = length reqs" "distinct names"
    "fset_of_list names |\<inter>| nicknames s = {||}" "nicknames s' = nicknames s |\<union>| fset_of_list names"
    by simp_all
  have "fcard (nicknames s |\<union>| fset_of_list names) =
        fcard (nicknames s) + fcard (fset_of_list names)"
    using jn by (metis fcard_funion_finter add.right_neutral fcard_fempty inf_commute)
  moreover have "fcard (fset_of_list names) = length names"
    using jn by (simp add: fcard.rep_eq fset_of_list.rep_eq distinct_card)
  ultimately show "fcard (nicknames s') = fcard (nicknames s) + length reqs" using jn by simp
next
  assume a: "handle_auth e s cid ci data = (s1, ci1, acts, fin) \<and> \<not> authenticated ci \<and> authenticated ci1"
  hence h: "handle_auth e s cid ci data = (s1, ci1, acts, fin)" and na: "\<not> authenticated ci"
    and au: "authenticated ci1" by blast+
  note hs0 = handle_auth_success[OF h na au]
  note hs = hs0[THEN conjunct1] hs0[THEN conjunct2, THEN conjunct1] hs0[THEN conjunct2, THEN conjunct2]
  note rule = resolve_nickname_rule[of "data ''nickname''" "nicknames s"]
  from hs(2) show "nicknames s1 = finsert (nickname ci1) (nicknames s)" .
  from hs(3) show "\<exists>p. srt_port ci1 = Some p \<and>
           filter is_auth_success acts =
             [if send_ok e (websocket ci)
              then Sent (websocket ci) (AuthSuccess (nickname ci1) p (bind_ip s))
              else SendFailed (websocket ci) (AuthSuccess (nickname ci1) p (bind_ip s))]" .
  { assume "data ''nickname'' |\<notin>| nicknames s"
    with rule hs(1) show "nickname ci1 = data ''nickname''" by simp }
  { assume "data ''nickname'' |\<in>| nicknames s"
    with rule hs(1) show "\<exists>k\<ge>2. nickname ci1 = Some (py_str (data ''nickname'') @ ''_'' @ str_nat k) \<and>
                Some (py_str (data ''nickname'') @ ''_'' @ str_nat k) |\<notin>| nicknames s \<and>
                (\<forall>j. 2 \<le> j \<and> j < k \<longrightarrow>
                     Some (py_str (data ''nickname'') @ ''_'' @ str_nat j) |\<in>| nicknames s)"
      by simp }
qed

text \<open>
  Two viewers ask for the nickname Saber one after the other; the second is named
  \<open>Saber_2\<close> and is told so.
\<close>

definition saber :: "string \<rightharpoonup> string" where
  "saber = [''type'' \<mapsto> ''auth'', ''code'' \<mapsto> ''114514'', ''nickname'' \<mapsto> ''Saber'']"

definition saber_1_actions :: "action list" where
  "saber_1_actions =
     [StartRelay ''client_Saber_10000'' 10000 ''0.0.0.0'',
      Sent 1 (AuthSuccess (Some ''Saber'') 10000 ''0.0.0.0''),
      Sent 1 (Join (Some ''Saber'')),
      Sent 1 (Members [(Some ''Archer'', Sender), (Some ''Saber'', Receiver)]),
      Sent 1 (Members [(Some ''Archer'', Sender), (Some ''Saber'', Receiver)]),
      MemberUpdateCallback [(Some ''Archer'', Sender), (Some ''Saber'', Receiver)]]"

definition saber_2_actions :: "action list" where
  "saber_2_actions =
     [StartRelay ''client_Saber_2_10001'' 10001 ''0.0.0.0'',
      Sent 2 (AuthSuccess (Some ''Saber_2'') 10001 ''0.0.0.0''),
      Sent 1 (Join (Some ''Saber_2'')),
      Sent 2 (Join (Some ''Saber_2'')),
      Sent 2 (Members [(Some ''Archer'', Sender), (Some ''Saber'', Receiver), (Some ''Saber_2'', Receiver)]),
      Sent 1 (Members [(Some ''Archer'', Sender), (Some ''Saber'', Receiver), (Some ''Saber_2'', Receiver)]),
      Sent 2 (Members [(Some ''Archer'', Sender), (Some ''Saber'', Receiver), (Some ''Saber_2'', Receiver)]),
      MemberUpdateCallback
        [(Some ''Archer'', Sender), (Some ''Saber'', Receiver), (Some ''Saber_2'', Receiver)]]"

lemma join_saber_1:
  "handle_auth env_ok (srv sys0) 1 (new_client 1) saber =
     (srv sys1, \<lparr> websocket = 1, authenticated = True, nickname = Some ''Saber'', srt_port = Some 10000 \<rparr>,
      saber_1_actions, Returned)"
  unfolding sys1_simp saber_1_actions_def
  by (simp add: sys0_simp saber_def new_client_def handle_auth_def Let_def
        resolve_nickname_def allocate_srt_port_def find_first_free env_ok_def
        start_rtmp_to_srt_def process_name_def str_int_def str_nat.simps digit_char_def
        send_message_def broadcast_message_def send_raw_message_def send_members_list_def
        notify_member_update_def get_online_members_def)

lemma join_saber_2:
  "handle_auth env_ok (srv sys1) 2 (new_client 2) saber =
     (srv sys_two, \<lparr> websocket = 2, authenticated = True, nickname = Some ''Saber_2'', srt_port = Some 10001 \<rparr>,
      saber_2_actions, Returned)"
  unfolding sys_two_simp sys1_simp saber_2_actions_def
  by (simp add: saber_def new_client_def handle_auth_def Let_def
        resolve_nickname_def first_free_counter.simps suffixed_def
        allocate_srt_port_def find_first_free env_ok_def
        start_rtmp_to_srt_def process_name_def str_int_def str_nat.simps digit_char_def
        send_message_def broadcast_message_def send_raw_message_def send_members_list_def
        notify_member_update_def get_online_members_def)

theorem nickname_collision_resolution_witness:
  "joins (srv sys0) [(env_ok, 1, saber), (env_ok, 2, saber)] =
     Some (srv sys_two, [Some ''Saber'', Some ''Saber_2'']) \<and>
   nicknames (srv sys_two) = nicknames (srv sys0) |\<union>| fset_of_list [Some ''Saber'', Some ''Saber_2''] \<and>
   fcard (nicknames (srv sys_two)) = fcard (nicknames (srv sys0)) + 2 \<and>
   Some ''Saber'' |\<in>| nicknames (srv sys1) \<and>
   handle_auth env_ok (srv sys1) 2 (new_client 2) saber =
     (srv sys_two, \<lparr> websocket = 2, authenticated = True, nickname = Some ''Saber_2'', srt_port = Some 10001 \<rparr>,
      saber_2_actions, Returned) \<and>
   filter is_auth_success saber_2_actions = [Sent 2 (AuthSuccess (Some ''Saber_2'') 10001 ''0.0.0.0'')] \<and>
   nicknames (srv sys_two) = finsert (Some ''Saber_2'') (nicknames (srv sys1))"
proof -
  have j: "joins (srv sys0) [(env_ok, 1, saber), (env_ok, 2, saber)] =
             Some (srv sys_two, [Some ''Saber'', Some ''Saber_2''])"
    using join_saber_1 join_saber_2 by simp
  have na: "\<not> authenticated (new_client 2)" by (simp add: new_client_def)
  have au: "authenticated \<lparr> websocket = 2, authenticated = True, nickname = Some ''Saber_2'', srt_port = Some 10001 \<rparr>"
    by simp
  note t2 = nickname_collision_resolution[where s = "srv sys0" and s' = "srv sys_two"
      and reqs = "[(env_ok, 1, saber), (env_ok, 2, saber)]"
      and names = "[Some ''Saber'', Some ''Saber_2'']", THEN conjunct2, rule_format, OF j]
  have 1: "nicknames (srv sys_two) = nicknames (srv sys0) |\<union>| fset_of_list [Some ''Saber'', Some ''Saber_2'']"
    by (rule t2[THEN conjunct2, THEN conjunct2, THEN conjunct2, THEN conjunct1])
  have 2: "fcard (nicknames (srv sys_two)) = fcard (nicknames (srv sys0)) + 2"
    using t2[THEN conjunct2, THEN conjunct2, THEN conjunct2, THEN conjunct2] by simp
  note t1 = nickname_collision_resolution[where e = env_ok and s = "srv sys1" and cid = 2
      and ci = "new_client 2" and data = saber and ?s1.0 = "srv sys_two"
      and ?ci1.0 = "\<lparr> websocket = 2, authenticated = True, nickname = Some ''Saber_2'', srt_port = Some 10001 \<rparr>"
      and acts = saber_2_actions and fin = Returned,
      THEN conjunct1, rule_format, OF conjI[OF join_saber_2 conjI[OF na au]]]
  from t1[THEN conjunct2, THEN conjunct2, THEN conjunct1]
  have 3: "nicknames (srv sys_two) = finsert (Some ''Saber_2'') (nicknames (srv sys1))"
    by simp
  have b: "bind_ip (srv sys1) = ''0.0.0.0''" "send_ok env_ok (websocket (new_client 2))"
    "websocket (new_client 2) = 2"
    by (simp_all add: sys1_simp env_ok_def new_client_def)
  from t1[THEN conjunct2, THEN conjunct2, THEN conjunct2] b
  have 6: "filter is_auth_success saber_2_actions = [Sent 2 (AuthSuccess (Some ''Saber_2'') 10001 ''0.0.0.0'')]"
    by simp
  have 4: "Some ''Saber'' |\<in>| nicknames (srv sys1)" by (simp add: sys1_simp)
  from j 1 2 3 4 6 join_saber_2 show ?thesis by (simp only: simp_thms)
qed

section \<open>Process Supervisor (utils/process_manager.py)\<close>

text \<open>
  The arguments of \<open>start_process\<close>. A callback is a function object in the source; only
  whether it is given matters to the supervisor, so a callback is a number naming it.
\<close>

record launch =
  name :: string
  command :: "string list"
  cwd :: "string option"
  environ :: "(string \<times> string) list option"
  stdout_callback :: "nat option"
  stderr_callback :: "nat option"
  restart_on_exit :: bool

text \<open>A monitor thread with the arguments it was started with.\<close>

datatype monitor =
    OutputMonitor launch      \<comment> \<open>\<open>_monitor_process_output\<close>\<close>
  | ExitMonitor launch        \<comment> \<open>\<open>_monitor_process_exit\<close>; its relaunch passes no callbacks and \<open>True\<close>\<close>

record popen =
  pid :: nat
  args :: "string list"

record manager =
  processes :: "string \<rightharpoonup> popen"
  threads :: "string \<rightharpoonup> monitor"
  shutdown_event :: bool

datatype sup_action =
    Popen "string list" "string option" "(string \<times> string) list option"
  | Sleep nat
  | Terminate nat            \<comment> \<open>\<open>process.terminate()\<close>\<close>
  | CtrlBreak nat            \<comment> \<open>\<open>send_signal(CTRL_BREAK_EVENT)\<close> on Windows\<close>
  | Wait nat int             \<comment> \<open>\<open>process.wait(timeout)\<close>\<close>
  | Kill nat                 \<comment> \<open>\<open>process.kill()\<close>\<close>

text \<open>
  \<open>start_process\<close>. \<open>spawn\<close> is what \<open>subprocess.Popen\<close> does: the pid of the new process,
  or \<open>None\<close> when it raises.
\<close>

definition monitor_for :: "launch \<Rightarrow> monitor option" where
  "monitor_for l =
     (if stdout_callback l \<noteq> None \<or> stderr_callback l \<noteq> None then Some (OutputMonitor l)
      else if restart_on_exit l then Some (ExitMonitor l)
      else None)"

definition start_process :: "nat option \<Rightarrow> manager \<Rightarrow> launch \<Rightarrow> bool \<times> manager \<times> sup_action list" where
  "start_process spawn m l =
     (if name l \<in> dom (processes m) then (False, m, [])
      else case spawn of
             None \<Rightarrow> (False, m, [Popen (command l) (cwd l) (environ l)])
           | Some p \<Rightarrow>
               (True,
                m\<lparr> processes := (processes m)(name l \<mapsto> \<lparr> pid = p, args = command l \<rparr>),
                   threads := (case monitor_for l of
                                 None \<Rightarrow> threads m
                               | Some mon \<Rightarrow> (threads m)(name l \<mapsto> mon)) \<rparr>,
                [Popen (command l) (cwd l) (environ l)]))"

text \<open>
  What happens around a monitor after \<open>process.wait()\<close> returned: whether another thread
  sets the shutdown event during the three seconds of sleep, and what \<open>Popen\<close> does at the
  relaunch.
\<close>

record world =
  set_during_sleep :: bool
  respawn :: "nat option"

definition forget :: "manager \<Rightarrow> string \<Rightarrow> manager" where
  "forget m n = m\<lparr> processes := (processes m)(n := None), threads := (threads m)(n := None) \<rparr>"

definition monitor_process_output :: "world \<Rightarrow> manager \<Rightarrow> launch \<Rightarrow> int \<Rightarrow> manager \<times> sup_action list" where
  "monitor_process_output w m l exit_code =
     (let m1 = forget m (name l) in
      if restart_on_exit l \<and> \<not> shutdown_event m1
      then (let m2 = m1\<lparr> shutdown_event := shutdown_event m1 \<or> set_during_sleep w \<rparr> in
            if \<not> shutdown_event m2
            then (case start_process (respawn w) m2 l of (ok, m3, acts) \<Rightarrow> (m3, Sleep 3 # acts))
            else (m2, [Sleep 3]))
      else (m1, []))"

definition monitor_process_exit :: "world \<Rightarrow> manager \<Rightarrow> launch \<Rightarrow> int \<Rightarrow> manager \<times> sup_action list" where
  "monitor_process_exit w m l exit_code =
     (let m1 = forget m (name l) in
      if exit_code \<noteq> 0
      then (if \<not> shutdown_event m1
            then (let m2 = m1\<lparr> shutdown_event := shutdown_event m1 \<or> set_during_sleep w \<rparr> in
                  if \<not> shutdown_event m2
                  then (case start_process (respawn w) m2
                               (l\<lparr> stdout_callback := None, stderr_callback := None,
                                    restart_on_exit := True \<rparr>) of
                          (ok, m3, acts) \<Rightarrow> (m3, Sleep 3 # acts))
                  else (m2, [Sleep 3]))
            else (m1, []))
      else (m1, []))"

fun run_monitor :: "world \<Rightarrow> manager \<Rightarrow> monitor \<Rightarrow> int \<Rightarrow> manager \<times> sup_action list" where
  "run_monitor w m (OutputMonitor l) exit_code = monitor_process_output w m l exit_code"
| "run_monitor w m (ExitMonitor l) exit_code = monitor_process_exit w m l exit_code"

text \<open>
  What happens to the process of an exit: the monitor that \<open>start_process\<close> started for
  it, if any, handles the exit.
\<close>

definition process_exited :: "world \<Rightarrow> manager \<Rightarrow> launch \<Rightarrow> int \<Rightarrow> manager \<times> sup_action list" where
  "process_exited w m l exit_code =
     (case monitor_for l of
        None \<Rightarrow> (m, [])
      | Some mon \<Rightarrow> run_monitor w m mon exit_code)"

text \<open>\<open>stop_process\<close>, with what the operating system does at each of its calls.\<close>

record stop_world =
  windows :: bool
  signal_raises :: bool        \<comment> \<open>the termination signal cannot be sent\<close>
  exits_in_time :: bool        \<comment> \<open>\<open>wait(timeout)\<close> returns, no \<open>TimeoutExpired\<close>\<close>
  kill_raises :: bool
  exits_after_kill :: bool     \<comment> \<open>\<open>wait(2)\<close> after the kill returns\<close>

definition graceful_signal :: "stop_world \<Rightarrow> nat \<Rightarrow> sup_action" where
  "graceful_signal w p = (if windows w then CtrlBreak p else Terminate p)"

definition stop_process :: "stop_world \<Rightarrow> manager \<Rightarrow> string \<Rightarrow> int \<Rightarrow> bool \<times> manager \<times> sup_action list" where
  "stop_process w m n timeout =
     (case processes m n of
        None \<Rightarrow> (False, m, [])
      | Some process \<Rightarrow>
          if signal_raises w then (False, m, [graceful_signal w (pid process)])
          else if exits_in_time w
          then (True, forget m n, [graceful_signal w (pid process), Wait (pid process) timeout])
          else if kill_raises w
          then (False, m, [graceful_signal w (pid process), Wait (pid process) timeout,
                           Kill (pid process)])
          else if exits_after_kill w
          then (True, forget m n, [graceful_signal w (pid process), Wait (pid process) timeout,
                                   Kill (pid process), Wait (pid process) 2])
          else (False, m, [graceful_signal w (pid process), Wait (pid process) timeout,
                           Kill (pid process), Wait (pid process) 2]))"

text \<open>
  Claim C7, as amended. For an untracked name \<open>stop_process\<close> answers \<open>False\<close>, does nothing
  and leaves the supervisor as it is. For a tracked name it first sends the graceful
  termination signal (\<open>CTRL_BREAK_EVENT\<close> on Windows, \<open>terminate\<close> elsewhere), then waits
  up to the timeout, and kills exactly when the process is still alive after the wait,
  waiting two more seconds after the kill. The answer is \<open>True\<close> exactly when the signal
  was sent and the process ended on the graceful or on the forced path; then the record
  and the monitor entry of the name are removed and nothing else changes. Otherwise
  (the signal or the kill raises, or the process is still alive two seconds after the
  kill) the answer is \<open>False\<close> and the supervisor, the record included, is as before.
\<close>

theorem stop_process_contract:
  "(processes m n = None \<longrightarrow> stop_process w m n timeout = (False, m, [])) \<and>
   (\<forall>process. processes m n = Some process \<longrightarrow>
      (case stop_process w m n timeout of (ok, m', acts) \<Rightarrow>
         hd acts = (if windows w then CtrlBreak (pid process) else Terminate (pid process)) \<and>
         (\<not> signal_raises w \<longrightarrow>
            take 2 acts = [if windows w then CtrlBreak (pid process) else Terminate (pid process),
                           Wait (pid process) timeout]) \<and>
         (Kill (pid process) \<in> set acts \<longleftrightarrow> \<not> signal_raises w \<and> \<not> exits_in_time w) \<and>
         (\<not> signal_raises w \<and> \<not> exits_in_time w \<longrightarrow>
            drop 2 acts = Kill (pid process) # (if kill_raises w then [] else [Wait (pid process) 2])) \<and>
         (\<not> signal_raises w \<and> exits_in_time w \<longrightarrow> length acts = 2) \<and>
         (signal_raises w \<longrightarrow> length acts = 1) \<and>
         (ok \<longleftrightarrow> \<not> signal_raises w \<and> (exits_in_time w \<or> \<not> kill_raises w \<and> exits_after_kill w)) \<and>
         (ok \<longrightarrow> processes m' = (processes m)(n := None) \<and> threads m' = (threads m)(n := None) \<and>
                 shutdown_event m' = shutdown_event m) \<and>
         (\<not> ok \<longrightarrow> m' = m)))"
proof (intro conjI allI impI)
  assume "processes m n = None"
  thus "stop_process w m n timeout = (False, m, [])" by (simp add: stop_process_def)
next
  fix process
  assume p: "processes m n = Some process"
  show "case stop_process w m n timeout of (ok, m', acts) \<Rightarrow>
         hd acts = (if windows w then CtrlBreak (pid process) else Terminate (pid process)) \<and>
         (\<not> signal_raises w \<longrightarrow>
            take 2 acts = [if windows w then CtrlBreak (pid process) else Terminate (pid process),
                           Wait (pid process) timeout]) \<and>
         (Kill (pid process) \<in> set acts \<longleftrightarrow> \<not> signal_raises w \<and> \<not> exits_in_time w) \<and>
         (\<not> signal_raises w \<and> \<not> exits_in_time w \<longrightarrow>
            drop 2 acts = Kill (pid process) # (if kill_raises w then [] else [Wait (pid process) 2])) \<and>
         (\<not> signal_raises w \<and> exits_in_time w \<longrightarrow> length acts = 2) \<and>
         (signal_raises w \<longrightarrow> length acts = 1) \<and>
         (ok \<longleftrightarrow> \<not> signal_raises w \<and> (exits_in_time w \<or> \<not> kill_raises w \<and> exits_after_kill w)) \<and>
         (ok \<longrightarrow> processes m' = (processes m)(n := None) \<and> threads m' = (threads m)(n := None) \<and>
                 shutdown_event m' = shutdown_event m) \<and>
         (\<not> ok \<longrightarrow> m' = m)"
    using p by (simp add: stop_process_def forget_def graceful_signal_def)
qed

text \<open>
  A supervisor that tracks one process, and four answers of the operating system: the
  process ignores the signal and dies by the kill, the same on Windows, the process
  exits in time, and the process survives the kill for more than two seconds.
\<close>

definition mgr_example :: manager where
  "mgr_example = \<lparr> processes = [''relay'' \<mapsto> \<lparr> pid = 4242, args = [''ffmpeg''] \<rparr>],
                    threads = Map.empty, shutdown_event = False \<rparr>"

definition hangs :: stop_world where
  "hangs = \<lparr> windows = False, signal_raises = False, exits_in_time = False,
             kill_raises = False, exits_after_kill = True \<rparr>"

definition hangs_on_windows :: stop_world where
  "hangs_on_windows = hangs\<lparr> windows := True \<rparr>"

definition obeys :: stop_world where
  "obeys = hangs\<lparr> exits_in_time := True \<rparr>"

definition survives :: stop_world where
  "survives = hangs\<lparr> exits_after_kill := False \<rparr>"

lemma relay_tracked:
  "processes mgr_example ''relay'' = Some \<lparr> pid = 4242, args = [''ffmpeg''] \<rparr>"
  by (simp add: mgr_example_def)

lemma stop_relay_runs:
  "stop_process hangs mgr_example ''relay'' 5 =
     (True, \<lparr> processes = Map.empty, threads = Map.empty, shutdown_event = False \<rparr>,
      [Terminate 4242, Wait 4242 5, Kill 4242, Wait 4242 2])"
  "stop_process hangs_on_windows mgr_example ''relay'' 5 =
     (True, \<lparr> processes = Map.empty, threads = Map.empty, shutdown_event = False \<rparr>,
      [CtrlBreak 4242, Wait 4242 5, Kill 4242, Wait 4242 2])"
  "stop_process obeys mgr_example ''relay'' 5 =
     (True, \<lparr> processes = Map.empty, threads = Map.empty, shutdown_event = False \<rparr>,
      [Terminate 4242, Wait 4242 5])"
  "stop_process survives mgr_example ''relay'' 5 =
     (False, mgr_example, [Terminate 4242, Wait 4242 5, Kill 4242, Wait 4242 2])"
  by (simp_all add: stop_process_def mgr_example_def hangs_def hangs_on_windows_def obeys_def
        survives_def forget_def graceful_signal_def)

theorem stop_process_contract_witness:
  "stop_process hangs mgr_example ''relay'' 5 =
     (True, \<lparr> processes = Map.empty, threads = Map.empty, shutdown_event = False \<rparr>,
      [Terminate 4242, Wait 4242 5, Kill 4242, Wait 4242 2]) \<and>
   stop_process hangs_on_windows mgr_example ''relay'' 5 =
     (True, \<lparr> processes = Map.empty, threads = Map.empty, shutdown_event = False \<rparr>,
      [CtrlBreak 4242, Wait 4242 5, Kill 4242, Wait 4242 2]) \<and>
   stop_process obeys mgr_example ''relay'' 5 =
     (True, \<lparr> processes = Map.empty, threads = Map.empty, shutdown_event = False \<rparr>,
      [Terminate 4242, Wait 4242 5]) \<and>
   hd [CtrlBreak 4242, Wait 4242 5, Kill 4242, Wait 4242 2] = CtrlBreak 4242 \<and>
   stop_process hangs mgr_example ''player'' 5 = (False, mgr_example, [])"
proof -
  have q: "processes mgr_example ''player'' = None"
    by (simp add: mgr_example_def)
  from stop_process_contract[of mgr_example "''player''" hangs 5, THEN conjunct1, rule_format, OF q]
  have 2: "stop_process hangs mgr_example ''player'' 5 = (False, mgr_example, [])" .
  have w: "windows hangs_on_windows" by (simp add: hangs_on_windows_def hangs_def)
  from stop_process_contract[of mgr_example "''relay''" hangs_on_windows 5, THEN conjunct2,
      rule_format, OF relay_tracked]
  have 3: "hd [CtrlBreak 4242, Wait 4242 5, Kill 4242, Wait 4242 2] = CtrlBreak 4242"
    unfolding stop_relay_runs(2) using w by simp
  from stop_relay_runs(1,2,3) 2 3 show ?thesis by (simp only: simp_thms)
qed

text \<open>
  Claim C7 as stated fails when neither path ends the process: the tracked process
  ignores the signal and is still alive two seconds after the kill; the answer is
  \<open>False\<close> and the record of the name is still in the table.
\<close>

theorem stop_process_keeps_record_of_survivor:
  "processes mgr_example ''relay'' = Some \<lparr> pid = 4242, args = [''ffmpeg''] \<rparr> \<and>
   stop_process survives mgr_example ''relay'' 5 =
     (False, mgr_example, [Terminate 4242, Wait 4242 5, Kill 4242, Wait 4242 2]) \<and>
   processes (fst (snd (stop_process survives mgr_example ''relay'' 5))) ''relay'' =
     Some \<lparr> pid = 4242, args = [''ffmpeg''] \<rparr>"
  using relay_tracked stop_relay_runs(4) by simp

subsection \<open>Restart on exit\<close>

definition quiet_restarting :: launch where
  "quiet_restarting = \<lparr> name = ''relay'', command = [''ffmpeg'', ''-i'', ''in''], cwd = None,
                         environ = None, stdout_callback = None, stderr_callback = None,
                         restart_on_exit = True \<rparr>"

definition calm :: world where
  "calm = \<lparr> set_during_sleep = False, respawn = Some 4343 \<rparr>"

lemma monitor_process_output_relaunch:
  assumes "restart_on_exit l" and "\<not> shutdown_event m" and "\<not> set_during_sleep w"
  shows "snd (monitor_process_output w m l exit_code) =
           [Sleep 3, Popen (command l) (cwd l) (environ l)]"
  using assms
  by (simp add: monitor_process_output_def Let_def forget_def start_process_def split: option.splits)

lemma no_restart_without_flag:
  "\<not> restart_on_exit l \<Longrightarrow> snd (process_exited w m l exit_code) = []"
  by (simp add: process_exited_def monitor_for_def monitor_process_output_def Let_def)

text \<open>
  Claim C3 fails on the code. A process started with \<open>restart_on_exit\<close> and without output
  callbacks is watched by \<open>_monitor_process_exit\<close>; when it exits with code 0 its record is
  dropped and nothing is relaunched, whether or not a shutdown is signalled. The concrete
  case after it shows the contrast: with exit code 1, or with an output callback (the
  other monitor), the same command is relaunched after the wait of three seconds.
\<close>

theorem clean_exit_not_relaunched:
  assumes "stdout_callback l = None" and "stderr_callback l = None" and "restart_on_exit l"
  shows "monitor_for l = Some (ExitMonitor l) \<and>
         process_exited w m l 0 = (forget m (name l), [])"
  using assms by (simp add: monitor_for_def process_exited_def monitor_process_exit_def Let_def)

theorem clean_exit_not_relaunched_witness:
  "fst (start_process (Some 4242) \<lparr> processes = Map.empty, threads = Map.empty, shutdown_event = False \<rparr>
         quiet_restarting) \<and>
   \<not> shutdown_event mgr_example \<and> \<not> set_during_sleep calm \<and>
   monitor_for quiet_restarting = Some (ExitMonitor quiet_restarting) \<and>
   process_exited calm mgr_example quiet_restarting 0 =
     (\<lparr> processes = Map.empty, threads = Map.empty, shutdown_event = False \<rparr>, []) \<and>
   snd (process_exited calm mgr_example quiet_restarting 1) =
     [Sleep 3, Popen [''ffmpeg'', ''-i'', ''in''] None None] \<and>
   snd (process_exited calm mgr_example (quiet_restarting\<lparr> stdout_callback := Some 0 \<rparr>) 0) =
     [Sleep 3, Popen [''ffmpeg'', ''-i'', ''in''] None None]"
proof -
  have h: "stdout_callback quiet_restarting = None" "stderr_callback quiet_restarting = None"
    "restart_on_exit quiet_restarting" by (simp_all add: quiet_restarting_def)
  from clean_exit_not_relaunched[OF h, of calm mgr_example]
  have 1: "monitor_for quiet_restarting = Some (ExitMonitor quiet_restarting)"
    and 2: "process_exited calm mgr_example quiet_restarting 0 =
              (forget mgr_example (name quiet_restarting), [])" by blast+
  have 3: "forget mgr_example (name quiet_restarting) =
             \<lparr> processes = Map.empty, threads = Map.empty, shutdown_event = False \<rparr>"
    by (simp add: forget_def mgr_example_def quiet_restarting_def)
  have 4: "fst (start_process (Some 4242) \<lparr> processes = Map.empty, threads = Map.empty, shutdown_event = False \<rparr>
         quiet_restarting)"
    by (simp add: start_process_def)
  have 5: "snd (process_exited calm mgr_example quiet_restarting 1) =
     [Sleep 3, Popen [''ffmpeg'', ''-i'', ''in''] None None]"
    "snd (process_exited calm mgr_example (quiet_restarting\<lparr> stdout_callback := Some 0 \<rparr>) 0) =
     [Sleep 3, Popen [''ffmpeg'', ''-i'', ''in''] None None]"
    by (simp_all add: start_process_def quiet_restarting_def monitor_for_def process_exited_def
        monitor_process_exit_def monitor_process_output_def Let_def forget_def calm_def mgr_example_def)
  have 6: "\<not> shutdown_event mgr_example" "\<not> set_during_sleep calm"
    by (simp_all add: mgr_example_def calm_def)
  from 1 2 3 4 5 6 show ?thesis by (simp only: simp_thms)
qed

section \<open>Session Client (network/websocket_client.py)\<close>

record client =
  running :: bool
  connected :: bool
  client_authenticated :: bool
  auto_reconnect :: bool
  reconnect_attempts :: int
  max_reconnect_attempts :: int
  on_error_callback :: bool            \<comment> \<open>whether the callback is set\<close>
  on_connected_callback :: bool
  on_disconnected_callback :: bool

datatype client_error =
    ConnectFailed      \<comment> \<open>"connection failed: ..." of \<open>connect\<close>\<close>
  | CannotConnect      \<comment> \<open>"cannot connect to the server" of \<open>_try_reconnect\<close>\<close>

datatype client_action =
    ConnectAttempt                 \<comment> \<open>\<open>websockets.connect\<close> is called\<close>
  | ConnectedCallback
  | SendAuth                       \<comment> \<open>\<open>_authenticate\<close>\<close>
  | DisconnectedCallback
  | ErrorCallback client_error
  | WaitInterval                   \<comment> \<open>the wait of \<open>reconnect_interval\<close> seconds\<close>

text \<open>
  What the network does at one call of \<open>websockets.connect\<close>: it raises, or it returns
  and the receive loop later ends, by \<open>ConnectionClosed\<close> or quietly.
\<close>

datatype attempt =
    Refused
  | AcceptedThenClosed
  | AcceptedThenEnded

definition init_client :: client where
  "init_client =
     \<lparr> running = False, connected = False, client_authenticated = False,
       auto_reconnect = True, reconnect_attempts = 0, max_reconnect_attempts = 5,
       on_error_callback = False, on_connected_callback = False,
       on_disconnected_callback = False \<rparr>"

text \<open>
  \<open>connect\<close> and \<open>_try_reconnect\<close> call each other. The list holds one outcome for each
  call of \<open>websockets.connect\<close> to come; the result is \<open>None\<close> when an attempt is made for
  which the list has no outcome, and otherwise the final state, the actions in order, and
  the outcomes that were not used.
\<close>

function (sequential) connect :: "client \<Rightarrow> attempt list \<Rightarrow> (client \<times> client_action list \<times> attempt list) option"
  and try_reconnect :: "client \<Rightarrow> attempt list \<Rightarrow> (client \<times> client_action list \<times> attempt list) option"
where
  "connect c [] = None"
| "connect c (Refused # rest) =
     (let c1 = c\<lparr> connected := False \<rparr>;
          acts = ConnectAttempt # (if on_error_callback c1 then [ErrorCallback ConnectFailed] else [])
      in if auto_reconnect c1 \<and> reconnect_attempts c1 < max_reconnect_attempts c1 \<and> running c1
         then (case try_reconnect c1 rest of
                 None \<Rightarrow> None
               | Some (c2, acts2, rest2) \<Rightarrow> Some (c2, acts @ acts2, rest2))
         else Some (c1, acts, rest))"
| "connect c (AcceptedThenEnded # rest) =
     (let c1 = c\<lparr> connected := True, running := True, reconnect_attempts := 0 \<rparr>
      in Some (c1, ConnectAttempt # (if on_connected_callback c1 then [ConnectedCallback] else []) @
                   [SendAuth], rest))"
| "connect c (AcceptedThenClosed # rest) =
     (let c1 = c\<lparr> connected := True, running := True, reconnect_attempts := 0 \<rparr>;
          c2 = c1\<lparr> connected := False \<rparr>;
          acts = ConnectAttempt # (if on_connected_callback c1 then [ConnectedCallback] else []) @
                 [SendAuth] @
                 (if on_disconnected_callback c2 then [DisconnectedCallback] else [])
      in if auto_reconnect c2
         then (case try_reconnect c2 rest of
                 None \<Rightarrow> None
               | Some (c3, acts3, rest3) \<Rightarrow> Some (c3, acts @ acts3, rest3))
         else Some (c2, acts, rest))"
| "try_reconnect c outcomes =
     (if \<not> auto_reconnect c \<or> \<not> running c then Some (c, [], outcomes)
      else
        let c1 = c\<lparr> reconnect_attempts := reconnect_attempts c + 1 \<rparr>
        in if reconnect_attempts c1 > max_reconnect_attempts c1
           then Some (c1, (if on_error_callback c1 then [ErrorCallback CannotConnect] else []), outcomes)
           else (case connect c1 outcomes of
                   None \<Rightarrow> None
                 | Some (c2, acts2, rest2) \<Rightarrow> Some (c2, WaitInterval # acts2, rest2)))"
  by pat_completeness auto
termination
  by (relation "measure (\<lambda>x. case x of Inl (c, os) \<Rightarrow> 2 * length os
                                      | Inr (c, os) \<Rightarrow> 2 * length os + 1)") auto

text \<open>A client that is connected and running, as \<open>connect\<close> leaves it after it got through.\<close>

definition online :: client where
  "online = init_client\<lparr> running := True, connected := True, on_error_callback := True,
                          on_disconnected_callback := True \<rparr>"


declare connect.simps [simp del] try_reconnect.simps [simp del]

text \<open>
  The terminal branch of \<open>_try_reconnect\<close> is never reached when the bound is positive:
  \<open>connect\<close> calls \<open>_try_reconnect\<close> only while the counter is below the bound, and resets it
  at every connection.
\<close>

lemma terminal_error_unreachable:
  "(0 < max_reconnect_attempts c \<longrightarrow> reconnect_attempts c \<le> max_reconnect_attempts c \<longrightarrow>
      (\<forall>c' acts rest. connect c outcomes = Some (c', acts, rest) \<longrightarrow>
          ErrorCallback CannotConnect \<notin> set acts))"
  "(0 < max_reconnect_attempts c \<longrightarrow> reconnect_attempts c < max_reconnect_attempts c \<longrightarrow>
      (\<forall>c' acts rest. try_reconnect c outcomes = Some (c', acts, rest) \<longrightarrow>
          ErrorCallback CannotConnect \<notin> set acts))"
proof (induction c outcomes and c outcomes rule: connect_try_reconnect.induct)
  case (1 c)
  show ?case by (simp add: connect.simps)
next
  case (2 c rest)
  show ?case
  proof (intro impI allI)
    fix c' acts rest'
    assume pos: "0 < max_reconnect_attempts c" and le: "reconnect_attempts c \<le> max_reconnect_attempts c"
      and r: "connect c (Refused # rest) = Some (c', acts, rest')"
    let ?c1 = "c\<lparr> connected := False \<rparr>"
    let ?acts = "ConnectAttempt # (if on_error_callback ?c1 then [ErrorCallback ConnectFailed] else [])"
    show "ErrorCallback CannotConnect \<notin> set acts"
    proof (cases "auto_reconnect ?c1 \<and> reconnect_attempts ?c1 < max_reconnect_attempts ?c1 \<and> running ?c1")
      case False
      with r have "acts = ?acts" by (auto simp: connect.simps Let_def)
      thus ?thesis by simp
    next
      case True
      with r obtain acts2 where t: "try_reconnect ?c1 rest = Some (c', acts2, rest')"
        and a: "acts = ?acts @ acts2"
        by (auto simp: connect.simps Let_def split: option.splits)
      from "2.IH"[OF refl refl] True pos t have "ErrorCallback CannotConnect \<notin> set acts2" by simp
      with a show ?thesis by simp
    qed
  qed
next
  case (3 c rest)
  show ?case by (auto simp: connect.simps Let_def)
next
  case (4 c rest)
  show ?case
  proof (intro impI allI)
    fix c' acts rest'
    assume pos: "0 < max_reconnect_attempts c"
      and r: "connect c (AcceptedThenClosed # rest) = Some (c', acts, rest')"
    let ?c1 = "c\<lparr> connected := True, running := True, reconnect_attempts := 0 \<rparr>"
    let ?c2 = "?c1\<lparr> connected := False \<rparr>"
    let ?acts = "ConnectAttempt # (if on_connected_callback ?c1 then [ConnectedCallback] else []) @
                 [SendAuth] @ (if on_disconnected_callback ?c2 then [DisconnectedCallback] else [])"
    show "ErrorCallback CannotConnect \<notin> set acts"
    proof (cases "auto_reconnect ?c2")
      case False
      with r have "acts = ?acts" by (auto simp: connect.simps Let_def)
      thus ?thesis by simp
    next
      case True
      with r obtain acts3 where t: "try_reconnect ?c2 rest = Some (c', acts3, rest')"
        and a: "acts = ?acts @ acts3"
        by (auto simp: connect.simps Let_def split: option.splits)
      from "4.IH"[OF refl refl] True pos t have "ErrorCallback CannotConnect \<notin> set acts3" by simp
      with a show ?thesis by simp
    qed
  qed
next
  case (5 c outcomes)
  show ?case
  proof (intro impI allI)
    fix c' acts rest'
    assume pos: "0 < max_reconnect_attempts c" and lt: "reconnect_attempts c < max_reconnect_attempts c"
      and r: "try_reconnect c outcomes = Some (c', acts, rest')"
    let ?c1 = "c\<lparr> reconnect_attempts := reconnect_attempts c + 1 \<rparr>"
    show "ErrorCallback CannotConnect \<notin> set acts"
    proof (cases "\<not> auto_reconnect c \<or> \<not> running c")
      case True
      with r have "acts = []" by (auto simp: try_reconnect.simps)
      thus ?thesis by simp
    next
      case False
      from lt have ng: "\<not> reconnect_attempts ?c1 > max_reconnect_attempts ?c1" by simp
      with False r obtain acts2 where t: "connect ?c1 outcomes = Some (c', acts2, rest')"
        and a: "acts = WaitInterval # acts2"
        by (auto simp: try_reconnect.simps[of c outcomes] Let_def split: option.splits)
      from "5.IH"[OF False refl ng] pos lt t have "ErrorCallback CannotConnect \<notin> set acts2" by simp
      with a show ?thesis by simp
    qed
  qed
qed

text \<open>
  Claim C4 fails on the code. Whatever the network does, a client whose bound is positive
  and whose counter starts at zero never signals the terminal error of \<open>_try_reconnect\<close>.
  In the concrete case after it, a running client with the default bound of five loses
  its connection and every further attempt is refused: it makes exactly five attempts,
  each followed by the per-attempt error callback, and then stops, two outcomes unused.
\<close>

theorem reconnect_stops_without_terminal_error:
  assumes "0 < max_reconnect_attempts c" and "reconnect_attempts c = 0"
    and "try_reconnect c outcomes = Some (c', acts, rest)"
  shows "ErrorCallback CannotConnect \<notin> set acts"
  using terminal_error_unreachable(2)[of c outcomes] assms by simp

theorem reconnect_stops_without_terminal_error_witness:
  "0 < max_reconnect_attempts online \<and> reconnect_attempts online = 0 \<and>
   running online \<and> auto_reconnect online \<and> on_error_callback online \<and>
   try_reconnect online (replicate 7 Refused) =
     Some (online\<lparr> connected := False, reconnect_attempts := 5 \<rparr>,
           [WaitInterval, ConnectAttempt, ErrorCallback ConnectFailed,
            WaitInterval, ConnectAttempt, ErrorCallback ConnectFailed,
            WaitInterval, ConnectAttempt, ErrorCallback ConnectFailed,
            WaitInterval, ConnectAttempt, ErrorCallback ConnectFailed,
            WaitInterval, ConnectAttempt, ErrorCallback ConnectFailed],
           [Refused, Refused]) \<and>
   ErrorCallback CannotConnect \<notin> set
           [WaitInterval, ConnectAttempt, ErrorCallback ConnectFailed,
            WaitInterval, ConnectAttempt, ErrorCallback ConnectFailed,
            WaitInterval, ConnectAttempt, ErrorCallback ConnectFailed,
            WaitInterval, ConnectAttempt, ErrorCallback ConnectFailed,
            WaitInterval, ConnectAttempt, ErrorCallback ConnectFailed]"
proof -
  have p: "0 < max_reconnect_attempts online" and z: "reconnect_attempts online = 0"
    and f: "running online" "auto_reconnect online" "on_error_callback online"
    by (simp_all add: online_def init_client_def)
  have t: "try_reconnect online (replicate 7 Refused) =
     Some (online\<lparr> connected := False, reconnect_attempts := 5 \<rparr>,
           [WaitInterval, ConnectAttempt, ErrorCallback ConnectFailed,
            WaitInterval, ConnectAttempt, ErrorCallback ConnectFailed,
            WaitInterval, ConnectAttempt, ErrorCallback ConnectFailed,
            WaitInterval, ConnectAttempt, ErrorCallback ConnectFailed,
            WaitInterval, ConnectAttempt, ErrorCallback ConnectFailed],
           [Refused, Refused])"
    by (simp add: online_def init_client_def try_reconnect.simps connect.simps Let_def
        numeral_eq_Suc)
  from reconnect_stops_without_terminal_error[OF p z t] p z f t show ?thesis
    by (simp only: simp_thms)
qed

end
